theory Spec2Isabelle
  imports Complex_Main "HOL-Library.Log_Nat"
begin

section \<open>The earthquake-damage notebook: data preparation and split\<close>

text \<open>
  The notebook is a linear script.  Its first code cell reads two CSV files with
  pandas, drops the column \<open>building_id\<close> from both, and replaces the single-letter
  codes of eight categorical columns by integers.  A later cell calls scikit-learn's
  \<open>train_test_split(values, labels, test_size=0.2, random_state=0)\<close>.

  The cell's own statements are transcribed one by one.  The pandas and scikit-learn
  routines they call are transcribed from the behaviour of those libraries
  (pandas before copy-on-write, where \<open>values[key].replace(..., inplace=True)\<close>
  writes through to the frame; scikit-learn 0.21 and later), each named after the
  routine it stands for.  Python floats are IEEE doubles; their products are rounded
  as the hardware rounds them.
\<close>

subsection \<open>Data\<close>

text \<open>A cell of a table is a string (as read from the file) or a number.\<close>

datatype cell = Str string | Num int

text \<open>
  A \<open>DataFrame\<close>: the header and the records below it, each record a list of
  cells in the order of the header.  The number of records is \<open>len(df)\<close>.
\<close>

record frame =
  columns :: "string list"
  rows :: "cell list list"

text \<open>
  In a frame made by pandas the names of the header are distinct and every record has
  one cell for each of them.
\<close>

definition wf_frame :: "frame \<Rightarrow> bool" where
  "wf_frame fr \<longleftrightarrow>
     distinct (columns fr) \<and> list_all (\<lambda>r. length r = length (columns fr)) (rows fr)"

text \<open>The cell of record \<open>i\<close> under the column named \<open>c\<close>, if there is one.\<close>

definition cell_at :: "frame \<Rightarrow> nat \<Rightarrow> string \<Rightarrow> cell option" where
  "cell_at fr i c =
     (if i < length (rows fr) then map_of (zip (columns fr) (rows fr ! i)) c else None)"

text \<open>
  The exceptions the modelled statements raise.  \<open>read_csv\<close> raises
  \<open>FileNotFoundError\<close>, \<open>EmptyDataError\<close> or \<open>ParserError\<close>; pandas raises
  \<open>KeyError\<close> for a column label that is not there; the split raises \<open>ValueError\<close>
  at several places (the last of them in numpy, for the seed), told apart here by a tag.
\<close>

datatype split_fault =
  InconsistentSamples | TestSizeOutOfRange | TrainSizeOutOfRange | SizesExceedSamples |
  EmptyTrainSet | SeedOutOfRange

datatype error =
  KeyError string | ValueError split_fault | FileNotFoundError | EmptyDataError | ParserError

subsection \<open>The configuration\<close>

text \<open>
  The dict literal assigned to \<open>value_map\<close>; iteration over \<open>value_map.items()\<close> follows the order
  of the literal, so it is kept as an association list.
\<close>

definition value_map_literal :: "(string \<times> string list) list" where
  "value_map_literal =
     [(''land_surface_condition'', [''n'', ''o'', ''t'']),
      (''foundation_type'', [''h'', ''i'', ''r'', ''u'', ''w'']),
      (''roof_type'', [''n'', ''q'', ''x'']),
      (''ground_floor_type'', [''f'', ''m'', ''v'', ''x'', ''z'']),
      (''other_floor_type'', [''j'', ''q'', ''s'', ''x'']),
      (''position'', [''j'', ''o'', ''s'', ''t'']),
      (''plan_configuration'', [''a'', ''c'', ''d'', ''f'', ''m'', ''n'', ''o'', ''q'', ''s'', ''u'']),
      (''legal_ownership_status'', [''a'', ''r'', ''v'', ''w''])]"

text \<open>\<open>N = int(5e4)\<close>\<close>

definition N :: nat where
  "N = 50000"

subsection \<open>Library routines used by the data-preparation cell\<close>

text \<open>
  What is found at a path: no file, an empty file, text that is no table, or the table
  the text holds.  Parsing itself is not modelled.
\<close>

datatype csv_file = NoFile | EmptyFile | MalformedFile | Table frame

text \<open>
  \<open>pd.read_csv(file, header=0, delimiter=",", nrows=N)\<close>: the table, cut after
  \<open>nrows\<close> records, or the exception for what is wrong with the file.
\<close>

definition read_csv :: "csv_file \<Rightarrow> nat \<Rightarrow> error + frame" where
  "read_csv file nrows =
     (case file of
        NoFile \<Rightarrow> Inl FileNotFoundError
      | EmptyFile \<Rightarrow> Inl EmptyDataError
      | MalformedFile \<Rightarrow> Inl ParserError
      | Table t \<Rightarrow> Inr (t\<lparr>rows := take nrows (rows t)\<rparr>))"

text \<open>
  \<open>df.drop(label, axis=1, inplace=True)\<close>: removes the column with that label,
  \<open>KeyError\<close> when no column has it.
\<close>

definition frame_drop :: "string \<Rightarrow> frame \<Rightarrow> error + frame" where
  "frame_drop label fr =
     (if label \<in> set (columns fr)
      then Inr \<lparr>columns = filter (\<lambda>c. c \<noteq> label) (columns fr),
                rows = map (\<lambda>r. map snd (filter (\<lambda>(c, x). c \<noteq> label) (zip (columns fr) r)))
                           (rows fr)\<rparr>
      else Inl (KeyError label))"

text \<open>\<open>np.arange(n)\<close>\<close>

definition arange :: "nat \<Rightarrow> int list" where
  "arange n = map int [0..<n]"

text \<open>\<open>dict(pairs)\<close>: entries are stored in turn, a later one replaces an earlier one
  with the same key.\<close>

definition py_dict :: "('k \<times> 'v) list \<Rightarrow> ('k \<rightharpoonup> 'v)" where
  "py_dict ps = foldl (\<lambda>m (k, v). m(k \<mapsto> v)) Map.empty ps"

text \<open>
  \<open>Series.replace(to_replace=d)\<close> on one cell: a cell equal to a key of \<open>d\<close> becomes
  the value stored under it, every other cell stays.  The keys are strings, so a
  number never matches.
\<close>

fun replace_cell :: "(string \<rightharpoonup> int) \<Rightarrow> cell \<Rightarrow> cell" where
  "replace_cell d (Str s) = (case d s of Some i \<Rightarrow> Num i | None \<Rightarrow> Str s)"
| "replace_cell d (Num n) = Num n"

text \<open>
  \<open>values[key].replace(to_replace=d, inplace=True)\<close>: \<open>values[key]\<close> raises
  \<open>KeyError\<close> when the frame has no such column; otherwise the column is rewritten in
  place, cell by cell.
\<close>

definition replace_column :: "string \<Rightarrow> (string \<rightharpoonup> int) \<Rightarrow> frame \<Rightarrow> error + frame" where
  "replace_column key d fr =
     (if key \<in> set (columns fr)
      then Inr (fr\<lparr>rows := map (\<lambda>r. map (\<lambda>(c, x). if c = key then replace_cell d x else x)
                                        (zip (columns fr) r))
                             (rows fr)\<rparr>)
      else Inl (KeyError key))"

subsection \<open>The data-preparation cell\<close>

text \<open>The module-level variables the cell assigns: the notebook's state
  (\<open>values_df\<close> is the variable \<open>values\<close>).\<close>

record notebook =
  value_map :: "(string \<times> string list) list"
  values_df :: frame
  labels :: frame

text \<open>
  The loop \<open>for key, val in value_map.items(): ...\<close>, run over the entries in turn
  on the notebook's state.  Its body builds \<open>replacements\<close> and \<open>val_dict\<close> afresh
  and rewrites one column of \<open>values\<close>.  An exception leaves the loop at once.
\<close>

fun remap_loop :: "(string \<times> string list) list \<Rightarrow> notebook \<Rightarrow> error + notebook" where
  "remap_loop [] g = Inr g"
| "remap_loop ((key, val) # rest) g =
     (let replacements = arange (length val);
          val_dict = py_dict (zip val replacements)
      in case replace_column key val_dict (values_df g) of
           Inl e \<Rightarrow> Inl e
         | Inr fr \<Rightarrow> remap_loop rest (g\<lparr>values_df := fr\<rparr>))"

definition remapping_values :: "notebook \<Rightarrow> error + notebook" where
  "remapping_values g = remap_loop (value_map g) g"

text \<open>
  The whole cell, from what is found at the two paths: assign \<open>value_map\<close>, read the
  feature file, read the label file, drop \<open>building_id\<close> from both frames, run the
  loop.  The first exception ends the cell.
\<close>

definition prepare_data :: "csv_file \<Rightarrow> csv_file \<Rightarrow> error + notebook" where
  "prepare_data file_values file_labels =
     (case read_csv file_values N of
        Inl e \<Rightarrow> Inl e
      | Inr values0 \<Rightarrow>
          (case read_csv file_labels N of
             Inl e \<Rightarrow> Inl e
           | Inr labels0 \<Rightarrow>
               (case frame_drop ''building_id'' values0 of
                  Inl e \<Rightarrow> Inl e
                | Inr values1 \<Rightarrow>
                    (case frame_drop ''building_id'' labels0 of
                       Inl e \<Rightarrow> Inl e
                     | Inr labels1 \<Rightarrow>
                         remapping_values
                           \<lparr>value_map = value_map_literal, values_df = values1,
                            labels = labels1\<rparr>))))"

subsection \<open>The split\<close>

text \<open>
  The random number generator behind \<open>random_state\<close> is a parameter: \<open>seeded s\<close> is
  the state of a fresh \<open>RandomState(s)\<close>, and \<open>permutation st n\<close> is what
  \<open>rng.permutation(n)\<close> returns in state \<open>st\<close>, with the state it leaves behind.
  numpy promises that the result is a permutation of \<open>0, ..., n - 1\<close>.
\<close>

record 'r rng =
  seeded :: "int \<Rightarrow> 'r"
  permutation :: "'r \<Rightarrow> nat \<Rightarrow> nat list \<times> 'r"

definition rng_ok :: "'r rng \<Rightarrow> bool" where
  "rng_ok gen \<longleftrightarrow>
     (\<forall>st n. distinct (fst (permutation gen st n)) \<and> set (fst (permutation gen st n)) = {0..<n})"

text \<open>
  Floating point.  A Python float is an IEEE double: 53 significant bits, results
  rounded to the nearest double, a tie to the one with an even last bit.  A double is
  kept as the rational number it denotes.  \<open>exponent x\<close> is the power of two that
  brings a positive \<open>x\<close> between \<open>2^52\<close> and \<open>2^53\<close>, and \<open>binary64 x\<close> is the
  double nearest to \<open>x\<close>.  Overflow does not arise at the sizes of a split; below
  the normal range the model keeps 53 bits where the hardware keeps fewer, which the
  ceiling taken of the product cannot see.
\<close>

definition round_half_even :: "rat \<Rightarrow> int" where
  "round_half_even x =
     (let k = \<lfloor>x\<rfloor>; r = x - of_int k
      in if r < 1 / 2 then k else if 1 / 2 < r then k + 1 else if even k then k else k + 1)"

definition exponent :: "rat \<Rightarrow> int" where
  "exponent x =
     (let (p, q) = quotient_of x;
          e0 = bitlen p - bitlen q - 53
      in if x / (2 powi e0) < 2 ^ 53 then e0 else e0 + 1)"

definition binary64 :: "rat \<Rightarrow> rat" where
  "binary64 x =
     (if x = 0 then 0
      else let e = exponent \<bar>x\<bar>
           in sgn x * (of_int (round_half_even (\<bar>x\<bar> / (2 powi e))) * (2 powi e)))"

text \<open>
  \<open>_validate_shuffle_split(n_samples, test_size, train_size=None)\<close> for a float
  \<open>test_size\<close>, as \<open>train_test_split\<close> calls it: the range check,
  \<open>n_test = ceil(test_size * n_samples)\<close> with the product of two doubles,
  \<open>n_train = n_samples - n_test\<close>, the check of the sum, the check for an empty train
  set.
\<close>

definition validate_shuffle_split :: "nat \<Rightarrow> rat \<Rightarrow> error + int \<times> int" where
  "validate_shuffle_split n_samples test_size =
     (if test_size \<le> 0 \<or> test_size \<ge> 1 then Inl (ValueError TestSizeOutOfRange)
      else
        let n_test = \<lceil>binary64 (test_size * binary64 (of_nat n_samples))\<rceil>;
            n_train = int n_samples - n_test
        in if n_train + n_test > int n_samples then Inl (ValueError SizesExceedSamples)
           else if n_train = 0 then Inl (ValueError EmptyTrainSet)
           else Inr (n_train, n_test))"

text \<open>
  The same routine for two integer sizes, as \<open>ShuffleSplit\<close> calls it with the sizes
  just computed: each must lie strictly between 0 and \<open>n_samples\<close>.
\<close>

definition validate_shuffle_split_int :: "nat \<Rightarrow> int \<Rightarrow> int \<Rightarrow> error + nat \<times> nat" where
  "validate_shuffle_split_int n_samples test_size train_size =
     (if test_size \<ge> int n_samples \<or> test_size \<le> 0 then Inl (ValueError TestSizeOutOfRange)
      else if train_size \<ge> int n_samples \<or> train_size \<le> 0
      then Inl (ValueError TrainSizeOutOfRange)
      else
        let n_test = test_size;
            n_train = train_size
        in if n_train + n_test > int n_samples then Inl (ValueError SizesExceedSamples)
           else if n_train = 0 then Inl (ValueError EmptyTrainSet)
           else Inr (nat n_train, nat n_test))"

text \<open>
  \<open>ShuffleSplit._iter_indices\<close>, its first (and only requested) split:
  \<open>ind_test = permutation[:n_test]\<close>,
  \<open>ind_train = permutation[n_test:(n_test + n_train)]\<close>.
\<close>

definition iter_indices ::
  "'r rng \<Rightarrow> nat \<Rightarrow> nat \<Rightarrow> nat \<Rightarrow> 'r \<Rightarrow> (nat list \<times> nat list) \<times> 'r" where
  "iter_indices gen n_samples n_train n_test st =
     (let (perm, st') = permutation gen st n_samples;
          ind_test = take n_test perm;
          ind_train = take n_train (drop n_test perm)
      in ((ind_train, ind_test), st'))"

text \<open>\<open>_safe_indexing(X, indices)\<close> on a frame: \<open>X.iloc[indices]\<close>, the records at those
  positions, in that order.\<close>

definition safe_indexing :: "frame \<Rightarrow> nat list \<Rightarrow> frame" where
  "safe_indexing X indices = X\<lparr>rows := map (\<lambda>i. rows X ! i) indices\<rparr>"

text \<open>
  \<open>check_random_state(seed)\<close>: numpy's global generator for \<open>None\<close>, a fresh
  \<open>RandomState(seed)\<close> for an integer, which numpy refuses outside \<open>0 .. 2^32 - 1\<close>.
\<close>

definition check_random_state :: "'r rng \<Rightarrow> int option \<Rightarrow> 'r \<Rightarrow> error + 'r" where
  "check_random_state gen seed glob =
     (case seed of
        None \<Rightarrow> Inr glob
      | Some s \<Rightarrow> if 0 \<le> s \<and> s < 2 ^ 32 then Inr (seeded gen s)
                  else Inl (ValueError SeedOutOfRange))"

text \<open>
  \<open>train_test_split(X, y, test_size=f, random_state=rs)\<close>.  \<open>indexable\<close> rejects
  arrays of different lengths first; then the sizes are computed and validated, and
  validated again as integers by \<open>ShuffleSplit\<close>; then \<open>check_random_state\<close> gives
  the generator, and with \<open>None\<close> the call advances the state \<open>glob\<close> of the global
  one.  The result is \<open>(X_train, X_test, y_train, y_test)\<close>.
\<close>

definition train_test_split ::
  "'r rng \<Rightarrow> frame \<Rightarrow> frame \<Rightarrow> rat \<Rightarrow> int option \<Rightarrow> 'r
     \<Rightarrow> (error + frame \<times> frame \<times> frame \<times> frame) \<times> 'r" where
  "train_test_split gen X y test_size random_state glob =
     (if length (rows X) \<noteq> length (rows y) then (Inl (ValueError InconsistentSamples), glob)
      else
        case validate_shuffle_split (length (rows X)) test_size of
          Inl e \<Rightarrow> (Inl e, glob)
        | Inr (n_train0, n_test0) \<Rightarrow>
            (case validate_shuffle_split_int (length (rows X)) n_test0 n_train0 of
               Inl e \<Rightarrow> (Inl e, glob)
             | Inr (n_train, n_test) \<Rightarrow>
                 (case check_random_state gen random_state glob of
                    Inl e \<Rightarrow> (Inl e, glob)
                  | Inr st \<Rightarrow>
                      let ((train, test), st') =
                            iter_indices gen (length (rows X)) n_train n_test st;
                          glob' = (case random_state of None \<Rightarrow> st' | Some seed \<Rightarrow> glob)
                      in (Inr (safe_indexing X train, safe_indexing X test,
                               safe_indexing y train, safe_indexing y test), glob'))))"

text \<open>
  The notebook's call: \<open>train_test_split(values, labels, test_size=0.2, random_state=0)\<close>.
  The literal \<open>0.2\<close> is the double nearest to one fifth.
\<close>

definition split_cell ::
  "'r rng \<Rightarrow> notebook \<Rightarrow> 'r \<Rightarrow> (error + frame \<times> frame \<times> frame \<times> frame) \<times> 'r" where
  "split_cell gen g glob =
     train_test_split gen (values_df g) (labels g) (binary64 (1 / 5)) (Some 0) glob"

text \<open>A small generator to run the split on: it rotates the index range by its state.\<close>

definition rotating_rng :: "nat rng" where
  "rotating_rng = \<lparr>seeded = (\<lambda>s. nat \<bar>s\<bar>), permutation = (\<lambda>st n. (rotate st [0..<n], Suc st))\<rparr>"

subsection \<open>Sample inputs\<close>

text \<open>
  Tables to run the cells on.  \<open>sample_notebook\<close> is a state before the loop; its
  second record has \<open>z\<close> under \<open>land_surface_condition\<close>, whose vocabulary does
  not have it.  The \<open>file_...\<close> tables are file contents, with the identifier column;
  \<open>features_50\<close> and \<open>labels_49\<close> are two sources of fifty and forty-nine records;
  \<open>no_roof_type\<close> is a feature source without the column \<open>roof_type\<close>.
\<close>

definition sample_notebook :: notebook where
  "sample_notebook =
     \<lparr>value_map = value_map_literal,
      values_df =
        \<lparr>columns = [''age'', ''land_surface_condition'', ''foundation_type'', ''roof_type'',
                    ''ground_floor_type'', ''other_floor_type'', ''position'',
                    ''plan_configuration'', ''legal_ownership_status''],
         rows = [[Num 30, Str ''o'', Str ''r'', Str ''n'', Str ''f'', Str ''q'', Str ''s'',
                  Str ''d'', Str ''v''],
                 [Num 10, Str ''z'', Str ''h'', Str ''x'', Str ''z'', Str ''x'', Str ''t'',
                  Str ''u'', Str ''a'']]\<rparr>,
      labels = \<lparr>columns = [''damage_grade''], rows = [[Num 3], [Num 2]]\<rparr>\<rparr>"

definition file_values_sample :: frame where
  "file_values_sample =
     \<lparr>columns = [''building_id'', ''age'', ''land_surface_condition'', ''foundation_type'',
                 ''roof_type'', ''ground_floor_type'', ''other_floor_type'', ''position'',
                 ''plan_configuration'', ''legal_ownership_status''],
      rows = [[Num 802906, Num 30, Str ''o'', Str ''r'', Str ''n'', Str ''f'', Str ''q'', Str ''s'',
               Str ''d'', Str ''v''],
              [Num 28830, Num 10, Str ''t'', Str ''h'', Str ''x'', Str ''z'', Str ''x'', Str ''t'',
               Str ''u'', Str ''a'']]\<rparr>"

definition file_labels_sample :: frame where
  "file_labels_sample =
     \<lparr>columns = [''building_id'', ''damage_grade''], rows = [[Num 802906, Num 3], [Num 28830, Num 2]]\<rparr>"

definition bare_file :: frame where
  "bare_file = \<lparr>columns = [''building_id'', ''age''], rows = [[Num 802906, Num 30]]\<rparr>"

definition no_roof_type :: frame where
  "no_roof_type =
     \<lparr>columns = [''building_id'', ''age'', ''land_surface_condition'', ''foundation_type'',
                 ''ground_floor_type'', ''other_floor_type'', ''position'',
                 ''plan_configuration'', ''legal_ownership_status''],
      rows = [[Num 802906, Num 30, Str ''o'', Str ''r'', Str ''f'', Str ''q'', Str ''s'',
               Str ''d'', Str ''v'']]\<rparr>"

definition features_50 :: frame where
  "features_50 =
     \<lparr>columns = [''building_id'', ''age'', ''land_surface_condition'', ''foundation_type'',
                 ''roof_type'', ''ground_floor_type'', ''other_floor_type'', ''position'',
                 ''plan_configuration'', ''legal_ownership_status''],
      rows = replicate 50
        [Num 802906, Num 30, Str ''t'', Str ''r'', Str ''n'', Str ''f'', Str ''q'', Str ''t'',
         Str ''d'', Str ''v'']\<rparr>"

definition labels_49 :: frame where
  "labels_49 = \<lparr>columns = [''building_id'', ''damage_grade''], rows = replicate 49 [Num 802906, Num 3]\<rparr>"

definition two_rows :: frame where
  "two_rows = \<lparr>columns = [''age''], rows = [[Num 30], [Num 10]]\<rparr>"

definition two_labels :: frame where
  "two_labels = \<lparr>columns = [''damage_grade''], rows = [[Num 3], [Num 2]]\<rparr>"

definition hundred_rows :: frame where
  "hundred_rows = \<lparr>columns = [''age''], rows = replicate 100 [Num 30]\<rparr>"

definition hundred_labels :: frame where
  "hundred_labels = \<lparr>columns = [''damage_grade''], rows = replicate 100 [Num 3]\<rparr>"

definition no_rows :: frame where
  "no_rows = \<lparr>columns = [''age''], rows = []\<rparr>"

text \<open>
  A column is settled under a dict when replacing in it changes nothing any more.
\<close>

definition settled :: "string \<Rightarrow> (string \<rightharpoonup> int) \<Rightarrow> frame \<Rightarrow> bool" where
  "settled key d fr \<longleftrightarrow> replace_column key d fr = Inr fr"

section \<open>Properties of the library routines\<close>

subsection \<open>\<open>dict(zip(val, np.arange(len(val))))\<close>\<close>

text \<open>Building the dict entry by entry is a lookup in the reversed list of pairs.\<close>

lemma foldl_upd_map_of:
  "foldl (\<lambda>m (k, v). m(k \<mapsto> v)) m ps = m ++ map_of (rev ps)"
proof (induction ps arbitrary: m)
  case Nil
  then show ?case by simp
next
  case (Cons p ps)
  obtain k v where p: "p = (k, v)" by (cases p)
  have "foldl (\<lambda>m (k, v). m(k \<mapsto> v)) m (p # ps) = m(k \<mapsto> v) ++ map_of (rev ps)"
    unfolding p foldl_Cons prod.case by (rule Cons.IH)
  also have "\<dots> = m ++ map_of (rev (p # ps))"
    by (auto simp: p map_add_def fun_eq_iff split: option.splits)
  finally show ?case .
qed

lemma py_dict_map_of: "py_dict ps = map_of (rev ps)"
  by (simp add: py_dict_def foldl_upd_map_of)

text \<open>
  Whatever code the dict stores for a string, the vocabulary holds that string at that
  position; the strings without a code are those outside the vocabulary; and in a
  vocabulary without repetition the code is the position.
\<close>

lemma val_dict_SomeD:
  assumes "py_dict (zip val (arange (length val))) s = Some k"
  shows "0 \<le> k \<and> nat k < length val \<and> val ! nat k = s"
proof -
  from assms have "(s, k) \<in> set (zip val (arange (length val)))"
    by (auto simp: py_dict_map_of dest: map_of_SomeD)
  then obtain i where "i < length val" "val ! i = s" "arange (length val) ! i = k"
    by (auto simp: in_set_zip arange_def)
  then show ?thesis by (auto simp: arange_def)
qed

lemma val_dict_None_iff:
  "py_dict (zip val (arange (length val))) s = None \<longleftrightarrow> s \<notin> set val"
proof -
  have "map fst (zip val (arange (length val))) = val"
    by (simp add: arange_def)
  then have "fst ` set (zip val (arange (length val))) = set val"
    by (metis set_map)
  then show ?thesis
    by (simp add: py_dict_map_of map_of_eq_None_iff)
qed

lemma val_dict_nth:
  assumes "distinct val" "i < length val"
  shows "py_dict (zip val (arange (length val))) (val ! i) = Some (int i)"
proof -
  have "val ! i \<in> set val" using assms by simp
  then obtain k where k: "py_dict (zip val (arange (length val))) (val ! i) = Some k"
    using val_dict_None_iff [of val "val ! i"] by (cases "py_dict (zip val (arange (length val))) (val ! i)") auto
  from val_dict_SomeD [OF k] have "nat k < length val" "val ! nat k = val ! i" "0 \<le> k" by auto
  with assms have "nat k = i" by (simp add: nth_eq_iff_index_eq)
  with \<open>0 \<le> k\<close> k show ?thesis by auto
qed

subsection \<open>Replacing in a column\<close>

lemma replace_cell_idem: "replace_cell d (replace_cell d x) = replace_cell d x"
  by (cases x) (auto split: option.splits)

lemma replace_cell_stable:
  "replace_cell d x = x \<Longrightarrow> replace_cell d (replace_cell d' x) = replace_cell d' x"
  by (cases x) (auto split: option.splits)

lemma map_of_zip_map_cols:
  "map_of (zip cs (map (\<lambda>(c, x). F c x) (zip cs r))) k = map_option (F k) (map_of (zip cs r) k)"
proof (induction cs arbitrary: r)
  case Nil
  then show ?case by simp
next
  case (Cons c cs)
  then show ?case by (cases r) auto
qed

lemma cell_at_replace_column:
  assumes "replace_column key d fr = Inr fr'"
  shows "cell_at fr' i c = map_option (\<lambda>x. if c = key then replace_cell d x else x) (cell_at fr i c)"
proof -
  from assms have fr': "fr' = fr\<lparr>rows := map (\<lambda>r. map (\<lambda>(c, x). if c = key then replace_cell d x else x)
                                        (zip (columns fr) r)) (rows fr)\<rparr>"
    by (auto simp: replace_column_def split: if_splits)
  show ?thesis
    by (simp add: fr' cell_at_def map_of_zip_map_cols [where F = "\<lambda>c x. if c = key then replace_cell d x else x"])
qed

lemma replace_column_frame:
  assumes "replace_column key d fr = Inr fr'"
  shows "columns fr' = columns fr" "length (rows fr') = length (rows fr)" "key \<in> set (columns fr)"
  using assms by (auto simp: replace_column_def split: if_splits)

lemma row_replace_idem:
  "map (\<lambda>(c, x). if c = key then replace_cell d x else x)
       (zip cs (map (\<lambda>(c, x). if c = key then replace_cell d x else x) (zip cs r))) =
   map (\<lambda>(c, x). if c = key then replace_cell d x else x) (zip cs r)"
proof (induction cs arbitrary: r)
  case Nil
  then show ?case by simp
next
  case (Cons c cs)
  then show ?case by (cases r) (simp_all add: replace_cell_idem)
qed

lemma row_replace_stable:
  assumes "map (\<lambda>(c, x). if c = key then replace_cell d x else x) (zip cs r) = r"
  shows "map (\<lambda>(c, x). if c = key then replace_cell d x else x)
           (zip cs (map (\<lambda>(c, x). if c = k' then replace_cell d' x else x) (zip cs r))) =
         map (\<lambda>(c, x). if c = k' then replace_cell d' x else x) (zip cs r)"
  using assms
proof (induction cs arbitrary: r)
  case Nil
  then show ?case by simp
next
  case (Cons c cs)
  then show ?case by (cases r) (auto simp: replace_cell_stable)
qed

lemma settled_iff:
  "settled key d fr \<longleftrightarrow>
     key \<in> set (columns fr) \<and>
     (\<forall>r \<in> set (rows fr).
        map (\<lambda>(c, x). if c = key then replace_cell d x else x) (zip (columns fr) r) = r)"
proof -
  have "fr\<lparr>rows := xs\<rparr> = fr \<longleftrightarrow> xs = rows fr" for xs
    by (cases fr) auto
  then show ?thesis
    by (auto simp: settled_def replace_column_def map_idI dest: map_eq_conv [THEN iffD1, of _ _ id, simplified])
qed

lemma settled_after_replace:
  assumes "replace_column key d fr = Inr fr'"
  shows "settled key d fr'"
proof -
  from assms have fr': "fr' = fr\<lparr>rows := map (\<lambda>r. map (\<lambda>(c, x). if c = key then replace_cell d x else x)
                                        (zip (columns fr) r)) (rows fr)\<rparr>"
    and key: "key \<in> set (columns fr)"
    by (auto simp: replace_column_def split: if_splits)
  show ?thesis
    unfolding settled_iff using key by (auto simp: fr' row_replace_idem)
qed

lemma settled_preserved:
  assumes "settled key d fr" "replace_column k' d' fr = Inr fr'"
  shows "settled key d fr'"
proof -
  from assms(2) have fr': "fr' = fr\<lparr>rows := map (\<lambda>r. map (\<lambda>(c, x). if c = k' then replace_cell d' x else x)
                                        (zip (columns fr) r)) (rows fr)\<rparr>"
    by (auto simp: replace_column_def split: if_splits)
  from assms(1) show ?thesis
    unfolding settled_iff by (auto simp: fr' row_replace_stable)
qed

subsection \<open>Dropping a column\<close>

lemma zip_filter_cols:
  "zip (filter P cs) (map snd (filter (\<lambda>(c, x). P c) (zip cs r))) = filter (\<lambda>(c, x). P c) (zip cs r)"
proof (induction cs arbitrary: r)
  case Nil
  then show ?case by simp
next
  case (Cons c cs)
  then show ?case by (cases r) auto
qed

lemma map_of_filter_key:
  "map_of (filter (\<lambda>(c, x). P c) xs) k = (if P k then map_of xs k else None)"
  by (induction xs) auto

lemma frame_drop_frame:
  assumes "frame_drop label fr = Inr fr'"
  shows "label \<in> set (columns fr)" "columns fr' = filter (\<lambda>c. c \<noteq> label) (columns fr)"
        "length (rows fr') = length (rows fr)"
  using assms by (auto simp: frame_drop_def split: if_splits)

lemma cell_at_frame_drop:
  assumes "frame_drop label fr = Inr fr'"
  shows "cell_at fr' i c = (if c = label then None else cell_at fr i c)"
proof -
  from assms have fr': "fr' = \<lparr>columns = filter (\<lambda>c. c \<noteq> label) (columns fr),
                rows = map (\<lambda>r. map snd (filter (\<lambda>(c, x). c \<noteq> label) (zip (columns fr) r)))
                           (rows fr)\<rparr>"
    by (auto simp: frame_drop_def split: if_splits)
  show ?thesis
    by (simp add: fr' cell_at_def zip_filter_cols [where P = "\<lambda>c. c \<noteq> label"]
                  map_of_filter_key [where P = "\<lambda>c. c \<noteq> label"])
qed

lemma cell_at_absent:
  assumes "c \<notin> set (columns fr)"
  shows "cell_at fr i c = None"
proof -
  have "c \<notin> fst ` set (zip (columns fr) r)" for r :: "cell list"
    using assms by (auto dest: set_zip_leftD)
  then show ?thesis by (simp add: cell_at_def map_of_eq_None_iff)
qed

section \<open>The remapping loop\<close>

text \<open>
  The loop touches nothing but the records of \<open>values\<close>; it returns exactly when every
  key is a column, and otherwise raises \<open>KeyError\<close> for a key that is not.
\<close>

lemma remap_loop_frame:
  assumes "remap_loop vm g = Inr g'"
  shows "value_map g' = value_map g \<and> labels g' = labels g \<and>
         columns (values_df g') = columns (values_df g) \<and>
         length (rows (values_df g')) = length (rows (values_df g))"
  using assms
proof (induction vm g rule: remap_loop.induct)
  case (1 g)
  then show ?case by simp
next
  case (2 key val rest g)
  then show ?case
    by (auto simp: Let_def split: sum.splits dest: replace_column_frame)
qed

lemma remap_loop_keys_present:
  assumes "remap_loop vm g = Inr g'"
  shows "fst ` set vm \<subseteq> set (columns (values_df g))"
  using assms
proof (induction vm g rule: remap_loop.induct)
  case (1 g)
  then show ?case by simp
next
  case (2 key val rest g)
  from "2.prems" obtain fr where
    fr: "replace_column key (py_dict (zip val (arange (length val)))) (values_df g) = Inr fr"
    and rest: "remap_loop rest (g\<lparr>values_df := fr\<rparr>) = Inr g'"
    by (auto simp: Let_def split: sum.splits)
  have "fst ` set rest \<subseteq> set (columns fr)"
    using "2.IH" [OF refl refl fr rest] by simp
  with replace_column_frame [OF fr] show ?case by simp
qed

lemma remap_loop_returns:
  assumes "fst ` set vm \<subseteq> set (columns (values_df g))"
  shows "\<exists>g'. remap_loop vm g = Inr g'"
  using assms
proof (induction vm g rule: remap_loop.induct)
  case (1 g)
  then show ?case by simp
next
  case (2 key val rest g)
  then show ?case
    by (simp add: Let_def replace_column_def)
qed

lemma remap_loop_raises:
  assumes "remap_loop vm g = Inl e"
  shows "\<exists>key \<in> fst ` set vm. key \<notin> set (columns (values_df g)) \<and> e = KeyError key"
  using assms
proof (induction vm g rule: remap_loop.induct)
  case (1 g)
  then show ?case by simp
next
  case (2 key val rest g)
  show ?case
  proof (cases "replace_column key (py_dict (zip val (arange (length val)))) (values_df g)")
    case (Inl e')
    with "2.prems" have "e = KeyError key" "key \<notin> set (columns (values_df g))"
      by (auto simp: Let_def replace_column_def split: if_splits)
    then show ?thesis by simp
  next
    case (Inr fr)
    with "2.prems" have rest: "remap_loop rest (g\<lparr>values_df := fr\<rparr>) = Inl e"
      by (simp add: Let_def)
    from "2.IH" [OF refl refl Inr rest] replace_column_frame(1) [OF Inr]
    show ?thesis by auto
  qed
qed

text \<open>
  What the loop does to one cell: nothing under a column that is no key, and one
  replacement, by the dict of its vocabulary, under a column that is a key.
\<close>

lemma remap_loop_other_column:
  assumes "remap_loop vm g = Inr g'" "c \<notin> fst ` set vm"
  shows "cell_at (values_df g') i c = cell_at (values_df g) i c"
  using assms
proof (induction vm g rule: remap_loop.induct)
  case (1 g)
  then show ?case by simp
next
  case (2 key val rest g)
  from "2.prems" obtain fr where
    fr: "replace_column key (py_dict (zip val (arange (length val)))) (values_df g) = Inr fr"
    and rest: "remap_loop rest (g\<lparr>values_df := fr\<rparr>) = Inr g'"
    by (auto simp: Let_def split: sum.splits)
  from "2.prems" have c: "c \<noteq> key" "c \<notin> fst ` set rest" by auto
  have "cell_at (values_df g') i c = cell_at fr i c"
    using "2.IH" [OF refl refl fr rest c(2)] by simp
  also have "\<dots> = cell_at (values_df g) i c"
    using cell_at_replace_column [OF fr, of i c] c(1) by (simp add: option.map_ident)
  finally show ?case .
qed

lemma remap_loop_key_column:
  assumes "remap_loop vm g = Inr g'" "distinct (map fst vm)" "(key, val) \<in> set vm"
  shows "cell_at (values_df g') i key =
         map_option (replace_cell (py_dict (zip val (arange (length val)))))
                    (cell_at (values_df g) i key)"
  using assms
proof (induction vm g rule: remap_loop.induct)
  case (1 g)
  then show ?case by simp
next
  case (2 k v rest g)
  from "2.prems" obtain fr where
    fr: "replace_column k (py_dict (zip v (arange (length v)))) (values_df g) = Inr fr"
    and rest: "remap_loop rest (g\<lparr>values_df := fr\<rparr>) = Inr g'"
    by (auto simp: Let_def split: sum.splits)
  from "2.prems" have d: "k \<notin> fst ` set rest" "distinct (map fst rest)" by auto
  show ?case
  proof (cases "(key, val) \<in> set rest")
    case True
    with d have "key \<noteq> k" by force
    have "cell_at (values_df g') i key =
          map_option (replace_cell (py_dict (zip val (arange (length val))))) (cell_at fr i key)"
      using "2.IH" [OF refl refl fr rest d(2) True] by simp
    also have "cell_at fr i key = cell_at (values_df g) i key"
      using cell_at_replace_column [OF fr, of i key] \<open>key \<noteq> k\<close> by (simp add: option.map_ident)
    finally show ?thesis .
  next
    case False
    with "2.prems" have eq: "key = k" "val = v" by auto
    have "cell_at (values_df g') i key = cell_at fr i key"
      using remap_loop_other_column [OF rest, of key i] d(1) eq by simp
    also have "\<dots> = map_option (replace_cell (py_dict (zip val (arange (length val)))))
                         (cell_at (values_df g) i key)"
      using cell_at_replace_column [OF fr, of i key] eq by simp
    finally show ?thesis .
  qed
qed

text \<open>After the loop every configured column is settled, so a second run is the identity.\<close>

lemma remap_loop_settled_preserved:
  assumes "remap_loop vm g = Inr g'" "settled key d (values_df g)"
  shows "settled key d (values_df g')"
  using assms
proof (induction vm g rule: remap_loop.induct)
  case (1 g)
  then show ?case by simp
next
  case (2 k v rest g)
  from "2.prems" obtain fr where
    fr: "replace_column k (py_dict (zip v (arange (length v)))) (values_df g) = Inr fr"
    and rest: "remap_loop rest (g\<lparr>values_df := fr\<rparr>) = Inr g'"
    by (auto simp: Let_def split: sum.splits)
  have "settled key d fr"
    using settled_preserved [OF "2.prems"(2) fr] .
  with "2.IH" [OF refl refl fr rest] show ?case by simp
qed

lemma remap_loop_settles:
  assumes "remap_loop vm g = Inr g'" "(key, val) \<in> set vm"
  shows "settled key (py_dict (zip val (arange (length val)))) (values_df g')"
  using assms
proof (induction vm g rule: remap_loop.induct)
  case (1 g)
  then show ?case by simp
next
  case (2 k v rest g)
  from "2.prems" obtain fr where
    fr: "replace_column k (py_dict (zip v (arange (length v)))) (values_df g) = Inr fr"
    and rest: "remap_loop rest (g\<lparr>values_df := fr\<rparr>) = Inr g'"
    by (auto simp: Let_def split: sum.splits)
  show ?case
  proof (cases "(key, val) \<in> set rest")
    case True
    with "2.IH" [OF refl refl fr rest] show ?thesis by simp
  next
    case False
    with "2.prems" have eq: "key = k" "val = v" by auto
    have "settled k (py_dict (zip v (arange (length v)))) (values_df (g\<lparr>values_df := fr\<rparr>))"
      using settled_after_replace [OF fr] by simp
    from remap_loop_settled_preserved [OF rest this] eq show ?thesis by simp
  qed
qed

lemma remap_loop_fixpoint:
  assumes "\<And>key val. (key, val) \<in> set vm \<Longrightarrow>
             settled key (py_dict (zip val (arange (length val)))) (values_df g)"
  shows "remap_loop vm g = Inr g"
  using assms
proof (induction vm)
  case Nil
  then show ?case by simp
next
  case (Cons p vm)
  obtain k v where p: "p = (k, v)" by (cases p)
  have "replace_column k (py_dict (zip v (arange (length v)))) (values_df g) = Inr (values_df g)"
    using Cons.prems [of k v] by (simp add: p settled_def)
  moreover have "remap_loop vm g = Inr g"
    using Cons by simp
  ultimately show ?case by (simp add: p Let_def)
qed

text \<open>The configuration of the notebook: its keys are distinct, none is the identifier,
  and no vocabulary repeats a string.\<close>

lemma literal_keys:
  "distinct (map fst value_map_literal)" "''building_id'' \<notin> fst ` set value_map_literal"
  by (simp_all add: value_map_literal_def)

lemma literal_vocabularies_distinct:
  "(key, val) \<in> set value_map_literal \<Longrightarrow> distinct val"
  by (auto simp: value_map_literal_def)

text \<open>The loop on the sample state.\<close>

lemma sample_notebook_remapped:
  "remapping_values sample_notebook =
     Inr (sample_notebook\<lparr>values_df := (values_df sample_notebook)\<lparr>rows :=
       [[Num 30, Num 1, Num 2, Num 0, Num 0, Num 1, Num 2, Num 2, Num 2],
        [Num 10, Str ''z'', Num 0, Num 2, Num 4, Num 3, Num 3, Num 9, Num 0]]\<rparr>\<rparr>)"
  by (simp add: sample_notebook_def remapping_values_def value_map_literal_def replace_column_def
        arange_def py_dict_def Let_def)

subsection \<open>Well-formed frames\<close>

text \<open>
  Cutting the records, dropping a column and replacing in a column keep a frame
  well-formed; in a well-formed frame the cell at a position is the cell under the
  name at that position.
\<close>

lemma wf_frame_take:
  assumes "wf_frame t"
  shows "wf_frame (t\<lparr>rows := take n (rows t)\<rparr>)"
  using assms by (auto simp: wf_frame_def list_all_iff dest: in_set_takeD)

lemma length_filter_zip_cols:
  assumes "length r = length cs"
  shows "length (filter (\<lambda>(c, x). P c) (zip cs r)) = length (filter P cs)"
  using assms
proof (induction cs arbitrary: r)
  case Nil
  then show ?case by simp
next
  case (Cons c cs)
  then show ?case by (cases r) auto
qed

lemma wf_frame_drop:
  assumes "frame_drop label fr = Inr fr'" "wf_frame fr"
  shows "wf_frame fr'"
proof -
  from assms(1) have fr': "fr' = \<lparr>columns = filter (\<lambda>c. c \<noteq> label) (columns fr),
                rows = map (\<lambda>r. map snd (filter (\<lambda>(c, x). c \<noteq> label) (zip (columns fr) r)))
                           (rows fr)\<rparr>"
    by (auto simp: frame_drop_def split: if_splits)
  from assms(2) show ?thesis
    by (auto simp: fr' wf_frame_def list_all_iff
          length_filter_zip_cols [where P = "\<lambda>c. c \<noteq> label"])
qed

lemma wf_frame_replace_column:
  assumes "replace_column key d fr = Inr fr'" "wf_frame fr"
  shows "wf_frame fr'"
proof -
  from assms(1) have fr': "fr' = fr\<lparr>rows := map (\<lambda>r. map (\<lambda>(c, x). if c = key then replace_cell d x else x)
                                        (zip (columns fr) r)) (rows fr)\<rparr>"
    by (auto simp: replace_column_def split: if_splits)
  from assms(2) show ?thesis
    by (auto simp: fr' wf_frame_def list_all_iff)
qed

lemma wf_frame_remap_loop:
  assumes "remap_loop vm g = Inr g'" "wf_frame (values_df g)"
  shows "wf_frame (values_df g')"
  using assms
proof (induction vm g rule: remap_loop.induct)
  case (1 g)
  then show ?case by simp
next
  case (2 key val rest g)
  from "2.prems" obtain fr where
    fr: "replace_column key (py_dict (zip val (arange (length val)))) (values_df g) = Inr fr"
    and rest: "remap_loop rest (g\<lparr>values_df := fr\<rparr>) = Inr g'"
    by (auto simp: Let_def split: sum.splits)
  from wf_frame_replace_column [OF fr "2.prems"(2)] "2.IH" [OF refl refl fr rest]
  show ?case by simp
qed

lemma wf_frame_cell:
  assumes "wf_frame fr" "i < length (rows fr)" "j < length (columns fr)"
  shows "cell_at fr i (columns fr ! j) = Some (rows fr ! i ! j)"
proof -
  from assms(1,2) have len: "length (columns fr) = length (rows fr ! i)"
    by (auto simp: wf_frame_def list_all_iff)
  from assms(1) have d: "distinct (columns fr)" by (simp add: wf_frame_def)
  from map_of_zip_nth [OF len d, of j] assms(2,3) len show ?thesis
    by (simp add: cell_at_def)
qed

lemma cell_at_take:
  assumes "i < length (take n (rows t))"
  shows "cell_at (t\<lparr>rows := take n (rows t)\<rparr>) i c = cell_at t i c"
  using assms by (simp add: cell_at_def)

lemma sample_files_wf: "wf_frame file_values_sample" "wf_frame file_labels_sample"
  by (simp_all add: wf_frame_def file_values_sample_def file_labels_sample_def)

section \<open>The data-preparation cell as a whole\<close>

text \<open>The cell returns only on two tables, and then every step of it returned.\<close>

lemma prepare_data_InrD:
  assumes "prepare_data file_values file_labels = Inr g"
  shows "\<exists>fv fl values1 labels1.
           file_values = Table fv \<and> file_labels = Table fl \<and>
           frame_drop ''building_id'' (fv\<lparr>rows := take N (rows fv)\<rparr>) = Inr values1 \<and>
           frame_drop ''building_id'' (fl\<lparr>rows := take N (rows fl)\<rparr>) = Inr labels1 \<and>
           remap_loop value_map_literal
             \<lparr>value_map = value_map_literal, values_df = values1, labels = labels1\<rparr> = Inr g"
  using assms
  by (auto simp: prepare_data_def read_csv_def remapping_values_def
           split: sum.splits csv_file.splits)

lemma prepare_data_tables:
  assumes "''building_id'' \<in> set (columns fv)" "''building_id'' \<in> set (columns fl)"
  shows "\<exists>values1 labels1.
           frame_drop ''building_id'' (fv\<lparr>rows := take N (rows fv)\<rparr>) = Inr values1 \<and>
           frame_drop ''building_id'' (fl\<lparr>rows := take N (rows fl)\<rparr>) = Inr labels1 \<and>
           set (columns values1) = set (columns fv) - {''building_id''} \<and>
           prepare_data (Table fv) (Table fl) =
             remap_loop value_map_literal
               \<lparr>value_map = value_map_literal, values_df = values1, labels = labels1\<rparr>"
  using assms
  by (auto simp: prepare_data_def read_csv_def remapping_values_def frame_drop_def)

text \<open>
  On two tables that have the identifier column, the cell returns when every
  configured column is in the feature table.  When one is missing the cell fails,
  whatever the label file is; on two tables with the identifier column it fails
  with the \<open>KeyError\<close> of a missing column.
\<close>

lemma prepare_data_returns:
  assumes "''building_id'' \<in> set (columns fv)" "''building_id'' \<in> set (columns fl)"
      and "fst ` set value_map_literal \<subseteq> set (columns fv)"
  shows "\<exists>g. prepare_data (Table fv) (Table fl) = Inr g"
proof -
  from prepare_data_tables [OF assms(1,2)] obtain values1 labels1 where
    cols: "set (columns values1) = set (columns fv) - {''building_id''}" and
    p: "prepare_data (Table fv) (Table fl) =
             remap_loop value_map_literal
               \<lparr>value_map = value_map_literal, values_df = values1, labels = labels1\<rparr>"
    by blast
  have "fst ` set value_map_literal \<subseteq> set (columns values1)"
    using assms(3) literal_keys(2) unfolding cols by blast
  from remap_loop_returns [of value_map_literal
      "\<lparr>value_map = value_map_literal, values_df = values1, labels = labels1\<rparr>"] this
  show ?thesis unfolding p by simp
qed

lemma prepare_data_missing_column:
  assumes "\<not> fst ` set value_map_literal \<subseteq> set (columns fv)"
  shows "isl (prepare_data (Table fv) file_labels)"
proof (cases "prepare_data (Table fv) file_labels")
  case (Inl e)
  then show ?thesis by simp
next
  case (Inr g)
  from prepare_data_InrD [OF Inr] obtain fl values1 labels1 where
    v: "frame_drop ''building_id'' (fv\<lparr>rows := take N (rows fv)\<rparr>) = Inr values1" and
    r: "remap_loop value_map_literal
             \<lparr>value_map = value_map_literal, values_df = values1, labels = labels1\<rparr> = Inr g"
    by auto
  from remap_loop_keys_present [OF r] frame_drop_frame(2) [OF v]
  have "fst ` set value_map_literal \<subseteq> set (columns fv)" by auto
  with assms show ?thesis by simp
qed

lemma prepare_data_key_error:
  assumes "''building_id'' \<in> set (columns fv)" "''building_id'' \<in> set (columns fl)"
      and "\<not> fst ` set value_map_literal \<subseteq> set (columns fv)"
  shows "\<exists>k \<in> fst ` set value_map_literal.
           k \<notin> set (columns fv) \<and> prepare_data (Table fv) (Table fl) = Inl (KeyError k)"
proof -
  from prepare_data_tables [OF assms(1,2)] obtain values1 labels1 where
    cols: "set (columns values1) = set (columns fv) - {''building_id''}" and
    p: "prepare_data (Table fv) (Table fl) =
             remap_loop value_map_literal
               \<lparr>value_map = value_map_literal, values_df = values1, labels = labels1\<rparr>"
    by blast
  from prepare_data_missing_column [OF assms(3), of "Table fl"] obtain e where
    e: "prepare_data (Table fv) (Table fl) = Inl e"
    by (cases "prepare_data (Table fv) (Table fl)") auto
  from remap_loop_raises [OF e [unfolded p]] obtain k where
    k: "k \<in> fst ` set value_map_literal" "k \<notin> set (columns values1)" "e = KeyError k"
    by auto
  from k(1) literal_keys(2) have "k \<noteq> ''building_id''" by metis
  with k(2) cols have "k \<notin> set (columns fv)" by simp
  with k(1,3) e show ?thesis by blast
qed

lemma prepare_data_row_counts:
  assumes "prepare_data (Table fv) (Table fl) = Inr g"
  shows "length (rows (values_df g)) = min N (length (rows fv)) \<and>
         length (rows (labels g)) = min N (length (rows fl))"
proof -
  from prepare_data_InrD [OF assms] obtain values1 labels1 where
    v: "frame_drop ''building_id'' (fv\<lparr>rows := take N (rows fv)\<rparr>) = Inr values1" and
    l: "frame_drop ''building_id'' (fl\<lparr>rows := take N (rows fl)\<rparr>) = Inr labels1" and
    r: "remap_loop value_map_literal
             \<lparr>value_map = value_map_literal, values_df = values1, labels = labels1\<rparr> = Inr g"
    by auto
  from remap_loop_frame [OF r] frame_drop_frame(3) [OF v] frame_drop_frame(3) [OF l]
  show ?thesis by (simp add: min.commute)
qed

lemma sample_prepared:
  "prepare_data (Table file_values_sample) (Table file_labels_sample) =
     Inr \<lparr>value_map = value_map_literal,
          values_df =
            \<lparr>columns = [''age'', ''land_surface_condition'', ''foundation_type'', ''roof_type'',
                        ''ground_floor_type'', ''other_floor_type'', ''position'',
                        ''plan_configuration'', ''legal_ownership_status''],
             rows = [[Num 30, Num 1, Num 2, Num 0, Num 0, Num 1, Num 2, Num 2, Num 2],
                     [Num 10, Num 2, Num 0, Num 2, Num 4, Num 3, Num 3, Num 9, Num 0]]\<rparr>,
          labels = \<lparr>columns = [''damage_grade''], rows = [[Num 3], [Num 2]]\<rparr>\<rparr>"
  by (simp add: prepare_data_def file_values_sample_def file_labels_sample_def read_csv_def N_def
        frame_drop_def remapping_values_def value_map_literal_def replace_column_def arange_def
        py_dict_def Let_def)

section \<open>Rounding to a double\<close>

text \<open>Rounding to an integer is exact on integers and monotone against them.\<close>

lemma round_half_even_of_int [simp]: "round_half_even (of_int k) = k"
  by (simp add: round_half_even_def)

lemma round_half_even_le:
  assumes "y \<le> of_int K"
  shows "round_half_even y \<le> K"
proof -
  have fl: "\<lfloor>y\<rfloor> \<le> K" using assms by (simp add: floor_le_iff)
  show ?thesis
  proof (cases "y = of_int \<lfloor>y\<rfloor>")
    case True
    then show ?thesis using fl by (simp add: round_half_even_def)
  next
    case False
    moreover have "of_int \<lfloor>y\<rfloor> \<le> y" by (rule of_int_floor_le)
    ultimately have "of_int \<lfloor>y\<rfloor> < y" by (metis order_le_less)
    with assms have "of_int \<lfloor>y\<rfloor> < (of_int K :: rat)" by linarith
    then have "\<lfloor>y\<rfloor> < K" by simp
    then show ?thesis by (auto simp: round_half_even_def Let_def)
  qed
qed

lemma round_half_even_ge:
  assumes "of_int K \<le> y"
  shows "K \<le> round_half_even y"
proof -
  have "K \<le> \<lfloor>y\<rfloor>" using assms by (simp add: le_floor_iff)
  then show ?thesis by (auto simp: round_half_even_def Let_def)
qed

text \<open>The exponent brings a positive number between \<open>2^52\<close> and \<open>2^53\<close>.\<close>

lemma exponent_bounds:
  assumes "0 < x"
  shows "2 ^ 52 \<le> x / (2 powi exponent x) \<and> x / (2 powi exponent x) < 2 ^ 53"
proof -
  obtain p q where pq: "quotient_of x = (p, q)" by (cases "quotient_of x")
  then have x: "x = of_int p / of_int q" and q: "0 < q"
    by (simp_all add: quotient_of_div quotient_of_denom_pos)
  with assms have p: "0 < p" by (simp add: zero_less_divide_iff)
  define a where "a = nat (bitlen p)"
  define b where "b = nat (bitlen q)"
  have ba: "bitlen p = int a" and bb: "bitlen q = int b"
    by (simp_all add: a_def b_def bitlen_nonneg)
  have a1: "1 \<le> a" using p ba bitlen_eq_zero_iff [of p] by (cases a) auto
  have b1: "1 \<le> b" using q bb bitlen_eq_zero_iff [of q] by (cases b) auto
  have na: "nat (int a - 1) = a - 1" and nb: "nat (int b - 1) = b - 1" by simp_all
  from bitlen_bounds [OF p] have "2 ^ (a - 1) \<le> p" "p < 2 ^ a"
    unfolding ba na by simp_all
  then have pr: "(2::rat) ^ (a - 1) \<le> of_int p" "of_int p < (2::rat) ^ a"
    by (metis of_int_le_iff of_int_numeral of_int_power, metis of_int_less_iff of_int_numeral of_int_power)
  from bitlen_bounds [OF q] have "2 ^ (b - 1) \<le> q" "q < 2 ^ b"
    unfolding bb nb by simp_all
  then have qr: "(2::rat) ^ (b - 1) \<le> of_int q" "of_int q < (2::rat) ^ b"
    by (metis of_int_le_iff of_int_numeral of_int_power, metis of_int_less_iff of_int_numeral of_int_power)
  have qpos: "(0::rat) < of_int q" and ppos: "(0::rat) < of_int p" using p q by simp_all
  let ?e0 = "int a - int b - 53"
  have hi: "x < 2 powi (int a - int b + 1)"
  proof -
    have "x < 2 ^ a / 2 ^ (b - 1)"
      unfolding x using pr(2) qr(1) ppos
      by (intro frac_less) simp_all
    also have "\<dots> = 2 powi (int a - int (b - 1))"
      by (simp add: power_int_diff)
    also have "int a - int (b - 1) = int a - int b + 1" using b1 by simp
    finally show ?thesis .
  qed
  have lo: "2 powi (int a - 1 - int b) < x"
  proof -
    have "(2::rat) powi (int a - 1 - int b) = 2 powi (int (a - 1) - int b)"
      using a1 by (simp add: of_nat_diff)
    also have "\<dots> = 2 ^ (a - 1) / 2 ^ b"
      by (simp add: power_int_diff)
    also have "\<dots> < x"
      unfolding x using pr(1) qr(2) qpos
      by (intro frac_less2) simp_all
    finally show ?thesis .
  qed
  have e0pos: "(0::rat) < 2 powi ?e0" by simp
  have hi0: "x / (2 powi ?e0) < 2 ^ 54"
  proof -
    have "x / (2 powi ?e0) < 2 powi (int a - int b + 1) / (2 powi ?e0)"
      using hi e0pos by (simp add: divide_strict_right_mono)
    also have "\<dots> = 2 powi ((int a - int b + 1) - ?e0)"
      by (rule power_int_diff [symmetric]) simp
    also have "\<dots> = 2 powi (int 54)" by simp
    also have "\<dots> = 2 ^ 54" by (simp only: power_int_of_nat)
    finally show ?thesis .
  qed
  have lo0: "2 ^ 52 < x / (2 powi ?e0)"
  proof -
    have "(2::rat) ^ 52 = 2 powi (int 52)" by (simp only: power_int_of_nat)
    also have "\<dots> = 2 powi ((int a - 1 - int b) - ?e0)" by simp
    also have "\<dots> = 2 powi (int a - 1 - int b) / (2 powi ?e0)"
      by (rule power_int_diff) simp
    also have "\<dots> < x / (2 powi ?e0)"
      using lo e0pos by (simp add: divide_strict_right_mono)
    finally show ?thesis .
  qed
  have ex: "exponent x = (if x / (2 powi ?e0) < 2 ^ 53 then ?e0 else ?e0 + 1)"
    by (simp add: exponent_def pq ba bb)
  show ?thesis
  proof (cases "x / (2 powi ?e0) < 2 ^ 53")
    case True
    with lo0 ex show ?thesis by simp
  next
    case False
    then have ge: "2 ^ 53 \<le> x / (2 powi ?e0)" by simp
    have "(2::rat) powi (?e0 + 1) = 2 powi ?e0 * 2 powi 1"
      by (rule power_int_add) simp
    then have half: "x / (2 powi (?e0 + 1)) = x / (2 powi ?e0) / 2"
      by simp
    from False ex have e: "exponent x = ?e0 + 1" by simp
    have "2 ^ 52 \<le> x / (2 powi ?e0) / 2" using ge by simp
    moreover have "x / (2 powi ?e0) / 2 < 2 ^ 53" using hi0 by simp
    ultimately show ?thesis unfolding e half by (rule conjI)
  qed
qed

text \<open>
  Rounding to a double keeps a positive number positive, does not cross a natural
  number below \<open>2^53\<close>, and is exact on such a number.  So the product of a fraction
  and a number of records has its ceiling between 1 and that number.
\<close>

lemma binary64_pos:
  assumes "0 < x"
  shows "0 < binary64 x"
proof -
  let ?e = "exponent x"
  from exponent_bounds [OF assms] have "of_int (2 ^ 52) \<le> x / (2 powi ?e)" by simp
  from round_half_even_ge [OF this] have "0 < round_half_even (x / (2 powi ?e))" by simp
  then have "(0::rat) < of_int (round_half_even (x / (2 powi ?e))) * (2 powi ?e)"
    by simp
  with assms show ?thesis by (simp add: binary64_def Let_def)
qed

lemma exponent_nonpos:
  assumes "0 < x" "x < 2 ^ 53"
  shows "exponent x \<le> 0"
proof (rule ccontr)
  assume "\<not> exponent x \<le> 0"
  then have "1 \<le> exponent x" by simp
  then have "(2::rat) powi 1 \<le> 2 powi exponent x"
    by (intro power_int_increasing) simp_all
  then have "2 \<le> (2::rat) powi exponent x" by simp
  moreover have "(0::rat) < 2 powi exponent x" by simp
  ultimately have "x / (2 powi exponent x) \<le> x / 2"
    using assms(1) by (intro divide_left_mono) simp_all
  also have "\<dots> < 2 ^ 52" using assms(2) by simp
  finally show False using exponent_bounds [OF assms(1)] by simp
qed

lemma binary64_le_nat:
  assumes "0 < x" "x \<le> of_nat n" "n < 2 ^ 53"
  shows "binary64 x \<le> of_nat n"
proof -
  let ?e = "exponent x"
  have n53: "(of_nat n :: rat) < 2 ^ 53"
    using assms(3) by (metis of_nat_less_iff of_nat_numeral of_nat_power)
  with assms(2) have "x < 2 ^ 53" by simp
  from exponent_nonpos [OF assms(1) this] have e: "?e \<le> 0" .
  define m where "m = nat (- ?e)"
  have pe: "(2::rat) powi ?e = 1 / 2 ^ m"
    using e by (simp add: power_int_def m_def field_simps)
  have "x / (2 powi ?e) \<le> of_nat n * 2 ^ m"
    using assms(2) by (simp add: pe)
  also have "\<dots> = of_int (int n * 2 ^ m)" by simp
  finally have "round_half_even (x / (2 powi ?e)) \<le> int n * 2 ^ m"
    by (rule round_half_even_le)
  then have "(of_int (round_half_even (x / (2 powi ?e))) :: rat) \<le> of_int (int n * 2 ^ m)"
    by (simp only: of_int_le_iff)
  then have "of_int (round_half_even (x / (2 powi ?e))) * ((2::rat) powi ?e) \<le> of_int (int n * 2 ^ m) * (2 powi ?e)"
    by (intro mult_right_mono) simp_all
  also have "\<dots> = of_nat n" by (simp add: pe)
  finally show ?thesis using assms(1) by (simp add: binary64_def Let_def)
qed

lemma binary64_ge_nat:
  assumes "of_nat n \<le> x" "0 < x" "x < 2 ^ 53"
  shows "of_nat n \<le> binary64 x"
proof -
  let ?e = "exponent x"
  from exponent_nonpos [OF assms(2,3)] have e: "?e \<le> 0" .
  define m where "m = nat (- ?e)"
  have pe: "(2::rat) powi ?e = 1 / 2 ^ m"
    using e by (simp add: power_int_def m_def field_simps)
  have "of_int (int n * 2 ^ m) = (of_nat n :: rat) * 2 ^ m" by simp
  also have "\<dots> \<le> x / (2 powi ?e)"
    using assms(1) by (simp add: pe)
  finally have "int n * 2 ^ m \<le> round_half_even (x / (2 powi ?e))"
    by (rule round_half_even_ge)
  then have r: "(of_int (int n * 2 ^ m) :: rat) \<le> of_int (round_half_even (x / (2 powi ?e)))"
    by (simp only: of_int_le_iff)
  have "(of_nat n :: rat) = of_int (int n * 2 ^ m) * (2 powi ?e)" by (simp add: pe)
  also have "\<dots> \<le> of_int (round_half_even (x / (2 powi ?e))) * (2 powi ?e)"
    using r by (intro mult_right_mono) simp_all
  finally show ?thesis using assms(2) by (simp add: binary64_def Let_def)
qed

lemma binary64_of_nat:
  assumes "n < 2 ^ 53"
  shows "binary64 (of_nat n) = of_nat n"
proof (cases "n = 0")
  case True
  then show ?thesis by (simp add: binary64_def)
next
  case False
  then have pos: "(0::rat) < of_nat n" by simp
  have n53: "(of_nat n :: rat) < 2 ^ 53"
    using assms by (metis of_nat_less_iff of_nat_numeral of_nat_power)
  from binary64_le_nat [OF pos order_refl assms] binary64_ge_nat [OF order_refl pos n53]
  show ?thesis by simp
qed

lemma double_product_bounds:
  assumes "0 < f" "f < 1" "0 < n" "n < 2 ^ 53"
  shows "0 < \<lceil>binary64 (f * binary64 (of_nat n))\<rceil> \<and> \<lceil>binary64 (f * binary64 (of_nat n))\<rceil> \<le> int n"
proof -
  have pos: "0 < f * of_nat n" using assms by simp
  have le: "f * of_nat n \<le> of_nat n" using assms by (simp add: mult_left_le_one_le)
  from binary64_pos [OF pos] have "0 < \<lceil>binary64 (f * of_nat n)\<rceil>" by simp
  moreover from binary64_le_nat [OF pos le assms(4)]
  have "\<lceil>binary64 (f * of_nat n)\<rceil> \<le> \<lceil>(of_nat n :: rat)\<rceil>" by (rule ceiling_mono)
  ultimately show ?thesis by (simp add: binary64_of_nat [OF assms(4)])
qed

text \<open>Some products, as Python computes them: \<open>0.2 * 100 = 20.0\<close>,
  \<open>0.2 * 2 = 0.4\<close>, \<open>0.2 * 1 = 0.2\<close>, \<open>0.55 * 100 = 55.00000000000001\<close>.\<close>

lemma double_products:
  "\<lceil>binary64 (binary64 (1 / 5) * binary64 (of_nat 100))\<rceil> = 20"
  "\<lceil>binary64 (binary64 (1 / 5) * binary64 (of_nat 2))\<rceil> = 1"
  "\<lceil>binary64 (binary64 (1 / 5) * binary64 (of_nat 1))\<rceil> = 1"
  "\<lceil>binary64 (binary64 (11 / 20) * binary64 (of_nat 100))\<rceil> = 56"
  "0 < binary64 (1 / 5)" "binary64 (1 / 5) < 1"
  "0 < binary64 (11 / 20)" "binary64 (11 / 20) < 1"
  by code_simp+

section \<open>The split\<close>

text \<open>
  With a fraction strictly between 0 and 1, the first validation fails only for an
  empty train set, and the second exactly when the test size is not strictly between
  0 and the number of records.
\<close>

lemma validate_shuffle_split_range:
  assumes "\<not> (0 < f \<and> f < 1)"
  shows "validate_shuffle_split n f = Inl (ValueError TestSizeOutOfRange)"
  using assms by (auto simp: validate_shuffle_split_def)

lemma validate_shuffle_split_float:
  assumes "0 < f" "f < 1"
  shows "validate_shuffle_split n f =
           (if \<lceil>binary64 (f * binary64 (of_nat n))\<rceil> = int n
            then Inl (ValueError EmptyTrainSet)
            else Inr (int n - \<lceil>binary64 (f * binary64 (of_nat n))\<rceil>,
                      \<lceil>binary64 (f * binary64 (of_nat n))\<rceil>))"
  using assms by (auto simp: validate_shuffle_split_def Let_def)

lemma validate_shuffle_split_int_eq:
  "validate_shuffle_split_int n t (int n - t) =
     (if 0 < t \<and> t < int n then Inr (n - nat t, nat t)
      else Inl (ValueError TestSizeOutOfRange))"
proof (cases "0 < t \<and> t < int n")
  case True
  then have "nat (int n - t) = n - nat t" by linarith
  with True show ?thesis by (auto simp: validate_shuffle_split_int_def Let_def)
next
  case False
  then show ?thesis by (auto simp: validate_shuffle_split_int_def)
qed

text \<open>The two index lists are the two ends of one permutation.\<close>

lemma iter_indices_partition:
  assumes "rng_ok gen" "iter_indices gen n n_train n_test st = ((train, test), st')" "n_train = n - n_test"
  shows "length test = min n_test n \<and> length train = n - n_test \<and>
         distinct train \<and> distinct test \<and> set train \<inter> set test = {} \<and>
         set train \<union> set test = {0..<n}"
proof -
  obtain perm st1 where p: "permutation gen st n = (perm, st1)" by (cases "permutation gen st n")
  from assms(1) p have d: "distinct perm" and s: "set perm = {0..<n}"
    unfolding rng_ok_def by (metis fst_conv)+
  from d s have len: "length perm = n"
    by (metis card_atLeastLessThan diff_zero distinct_card)
  from assms(2,3) p have tt: "test = take n_test perm" "train = drop n_test perm"
    by (auto simp: iter_indices_def Let_def len)
  have app: "test @ train = perm" by (simp add: tt)
  from d have "distinct (test @ train)" by (simp add: app)
  then have "distinct train" "distinct test" "set train \<inter> set test = {}" by auto
  moreover have "set train \<union> set test = {0..<n}"
    using s app by (metis set_append sup_commute)
  moreover have "length test = min n_test n" "length train = n - n_test"
    by (simp_all add: tt len min.commute)
  ultimately show ?thesis by simp
qed

lemma rotating_rng_ok: "rng_ok rotating_rng"
  by (simp add: rng_ok_def rotating_rng_def)

text \<open>The outcomes of the split on aligned frames and a valid fraction.\<close>

lemma train_test_split_empty_train:
  assumes "length (rows X) = length (rows y)" "0 < f" "f < 1"
      and "\<lceil>binary64 (f * binary64 (of_nat (length (rows X))))\<rceil> = int (length (rows X))"
  shows "train_test_split gen X y f rs glob = (Inl (ValueError EmptyTrainSet), glob)"
  using assms by (simp add: train_test_split_def validate_shuffle_split_float)

lemma train_test_split_returns:
  assumes "length (rows X) = length (rows y)" "0 < f" "f < 1"
      and "0 < \<lceil>binary64 (f * binary64 (of_nat (length (rows X))))\<rceil>"
      and "\<lceil>binary64 (f * binary64 (of_nat (length (rows X))))\<rceil> < int (length (rows X))"
      and "check_random_state gen rs glob = Inr st"
  shows "\<exists>train test st'.
           iter_indices gen (length (rows X))
              (length (rows X) - nat \<lceil>binary64 (f * binary64 (of_nat (length (rows X))))\<rceil>)
              (nat \<lceil>binary64 (f * binary64 (of_nat (length (rows X))))\<rceil>) st = ((train, test), st') \<and>
           train_test_split gen X y f rs glob =
             (Inr (safe_indexing X train, safe_indexing X test,
                   safe_indexing y train, safe_indexing y test),
              case rs of None \<Rightarrow> st' | Some seed \<Rightarrow> glob)"
proof -
  let ?n = "length (rows X)"
  let ?t = "\<lceil>binary64 (f * binary64 (of_nat ?n))\<rceil>"
  obtain train test st' where
    it: "iter_indices gen ?n (?n - nat ?t) (nat ?t) st = ((train, test), st')"
    by (metis prod.exhaust)
  have v1: "validate_shuffle_split ?n f = Inr (int ?n - ?t, ?t)"
    using assms(2,3,5) by (simp add: validate_shuffle_split_float)
  have v2: "validate_shuffle_split_int ?n ?t (int ?n - ?t) = Inr (?n - nat ?t, nat ?t)"
    using assms(4,5) by (simp add: validate_shuffle_split_int_eq)
  have "train_test_split gen X y f rs glob =
             (Inr (safe_indexing X train, safe_indexing X test,
                   safe_indexing y train, safe_indexing y test),
              case rs of None \<Rightarrow> st' | Some seed \<Rightarrow> glob)"
    by (simp add: train_test_split_def assms(1) [symmetric] v1 v2 assms(6) it)
  with it show ?thesis by blast
qed

lemma train_test_split_InrD:
  assumes "fst (train_test_split gen X y f rs glob) = Inr res"
  shows "length (rows X) = length (rows y) \<and> 0 < f \<and> f < 1 \<and>
         0 < \<lceil>binary64 (f * binary64 (of_nat (length (rows X))))\<rceil> \<and>
         \<lceil>binary64 (f * binary64 (of_nat (length (rows X))))\<rceil> < int (length (rows X)) \<and>
         (\<exists>st. check_random_state gen rs glob = Inr st)"
proof -
  let ?n = "length (rows X)"
  let ?t = "\<lceil>binary64 (f * binary64 (of_nat ?n))\<rceil>"
  from assms have len: "length (rows X) = length (rows y)"
    by (auto simp: train_test_split_def split: if_splits)
  have f: "0 < f \<and> f < 1"
  proof (rule ccontr)
    assume "\<not> (0 < f \<and> f < 1)"
    from validate_shuffle_split_range [OF this, of ?n] assms len show False
      by (simp add: train_test_split_def)
  qed
  have ne: "?t \<noteq> int ?n"
    using assms len f by (auto simp: train_test_split_def validate_shuffle_split_float)
  then have v1: "validate_shuffle_split ?n f = Inr (int ?n - ?t, ?t)"
    using f by (simp add: validate_shuffle_split_float)
  have t: "0 < ?t \<and> ?t < int ?n"
  proof (rule ccontr)
    assume "\<not> (0 < ?t \<and> ?t < int ?n)"
    then have "validate_shuffle_split_int ?n ?t (int ?n - ?t) = Inl (ValueError TestSizeOutOfRange)"
      by (simp add: validate_shuffle_split_int_eq)
    with assms len v1 show False by (simp add: train_test_split_def)
  qed
  then have v2: "validate_shuffle_split_int ?n ?t (int ?n - ?t) = Inr (?n - nat ?t, nat ?t)"
    by (simp add: validate_shuffle_split_int_eq)
  have "\<exists>st. check_random_state gen rs glob = Inr st"
  proof (cases "check_random_state gen rs glob")
    case (Inl e)
    with assms len v1 v2 show ?thesis by (simp add: train_test_split_def)
  next
    case (Inr st)
    then show ?thesis by blast
  qed
  with len f t show ?thesis by blast
qed

lemma train_test_split_result:
  assumes "fst (train_test_split gen X y f rs glob) = Inr (X_train, X_test, y_train, y_test)"
  shows "\<exists>train test st st'.
           iter_indices gen (length (rows X))
              (length (rows X) - nat \<lceil>binary64 (f * binary64 (of_nat (length (rows X))))\<rceil>)
              (nat \<lceil>binary64 (f * binary64 (of_nat (length (rows X))))\<rceil>) st = ((train, test), st') \<and>
           length (rows X) = length (rows y) \<and>
           X_train = safe_indexing X train \<and> X_test = safe_indexing X test \<and>
           y_train = safe_indexing y train \<and> y_test = safe_indexing y test"
proof -
  from train_test_split_InrD [OF assms] obtain st where
    h: "length (rows X) = length (rows y)" "0 < f" "f < 1"
       "0 < \<lceil>binary64 (f * binary64 (of_nat (length (rows X))))\<rceil>"
       "\<lceil>binary64 (f * binary64 (of_nat (length (rows X))))\<rceil> < int (length (rows X))"
       "check_random_state gen rs glob = Inr st"
    by blast
  from train_test_split_returns [OF h] assms
  show ?thesis using h(1) by fastforce
qed

lemma train_test_split_columns:
  assumes "fst (train_test_split gen X y f rs glob) = Inr (X_train, X_test, y_train, y_test)"
  shows "columns X_train = columns X \<and> columns X_test = columns X \<and>
         columns y_train = columns y \<and> columns y_test = columns y"
  using train_test_split_result [OF assms] by (auto simp: safe_indexing_def)

lemma two_rows_split:
  "fst (train_test_split rotating_rng two_rows two_labels (1 / 5) (Some 1) 0) =
     Inr (\<lparr>columns = [''age''], rows = [[Num 30]]\<rparr>,
          \<lparr>columns = [''age''], rows = [[Num 10]]\<rparr>,
          \<lparr>columns = [''damage_grade''], rows = [[Num 3]]\<rparr>,
          \<lparr>columns = [''damage_grade''], rows = [[Num 2]]\<rparr>)"
  by code_simp

lemma sample_split:
  "fst (split_cell rotating_rng
          (projr (prepare_data (Table file_values_sample) (Table file_labels_sample))) 0) =
     Inr (\<lparr>columns = [''age'', ''land_surface_condition'', ''foundation_type'', ''roof_type'',
                        ''ground_floor_type'', ''other_floor_type'', ''position'',
                        ''plan_configuration'', ''legal_ownership_status''],
           rows = [[Num 10, Num 2, Num 0, Num 2, Num 4, Num 3, Num 3, Num 9, Num 0]]\<rparr>,
          \<lparr>columns = [''age'', ''land_surface_condition'', ''foundation_type'', ''roof_type'',
                        ''ground_floor_type'', ''other_floor_type'', ''position'',
                        ''plan_configuration'', ''legal_ownership_status''],
           rows = [[Num 30, Num 1, Num 2, Num 0, Num 0, Num 1, Num 2, Num 2, Num 2]]\<rparr>,
          \<lparr>columns = [''damage_grade''], rows = [[Num 2]]\<rparr>,
          \<lparr>columns = [''damage_grade''], rows = [[Num 3]]\<rparr>)"
  unfolding sample_prepared by code_simp

section \<open>The claims\<close>

subsection \<open>The category encoder\<close>

text \<open>
  C1.  For every column configured in the vocabulary map (a dict, so its keys are
  distinct, and every key a column of the frame) and every cell of that column whose
  string stands at position \<open>j\<close> of the column's vocabulary (a vocabulary without
  repetition, so that the position is determined), the remapping step returns and
  leaves the integer \<open>j\<close> in that cell; reading the vocabulary at the code gives the
  original string back.
\<close>

theorem encoder_index:
  assumes "distinct (map fst (value_map g))"
      and "fst ` set (value_map g) \<subseteq> set (columns (values_df g))"
      and "(key, val) \<in> set (value_map g)"
      and "distinct val"
      and "j < length val"
      and "cell_at (values_df g) i key = Some (Str (val ! j))"
  shows "\<exists>g' code. remapping_values g = Inr g' \<and>
           cell_at (values_df g') i key = Some (Num code) \<and>
           code = int j \<and> val ! nat code = val ! j"
proof -
  from remap_loop_returns [OF assms(2)] obtain g' where
    g': "remap_loop (value_map g) g = Inr g'" by blast
  have "cell_at (values_df g') i key = Some (Num (int j))"
    using remap_loop_key_column [OF g' assms(1,3), of i] val_dict_nth [OF assms(4,5)] assms(6)
    by simp
  with g' show ?thesis by (simp add: remapping_values_def)
qed

text \<open>
  The scenario of C1 on the notebook's own configuration: with the vocabulary
  \<open>["n", "o", "t"]\<close> for \<open>land_surface_condition\<close>, the value \<open>o\<close> becomes 1.
\<close>

theorem encoder_index_witness:
  "\<exists>g'. remapping_values sample_notebook = Inr g' \<and>
        cell_at (values_df sample_notebook) 0 ''land_surface_condition'' = Some (Str ''o'') \<and>
        cell_at (values_df g') 0 ''land_surface_condition'' = Some (Num 1) \<and>
        [''n'', ''o'', ''t''] ! 1 = ''o''"
  using encoder_index [of sample_notebook "''land_surface_condition''" "[''n'', ''o'', ''t'']" 1 0]
  by (simp add: sample_notebook_def value_map_literal_def cell_at_def)

text \<open>
  C2 as stated asks for a failure on a value outside the vocabulary.  The loop has no
  such check: on the sample state, whose second record has \<open>z\<close> under
  \<open>land_surface_condition\<close>, it returns, and the \<open>z\<close> is still there.
\<close>

theorem unknown_category_counterexample:
  "''z'' \<notin> set [''n'', ''o'', ''t''] \<and>
   cell_at (values_df sample_notebook) 1 ''land_surface_condition'' = Some (Str ''z'') \<and>
   remapping_values sample_notebook =
     Inr (sample_notebook\<lparr>values_df := (values_df sample_notebook)\<lparr>rows :=
       [[Num 30, Num 1, Num 2, Num 0, Num 0, Num 1, Num 2, Num 2, Num 2],
        [Num 10, Str ''z'', Num 0, Num 2, Num 4, Num 3, Num 3, Num 9, Num 0]]\<rparr>\<rparr>)"
  by (simp add: sample_notebook_def remapping_values_def value_map_literal_def replace_column_def
        arange_def py_dict_def Let_def cell_at_def)

text \<open>
  C2, amended.  For every configured column, a cell whose string is absent from the
  column's vocabulary is left as it is, and the remapping step returns normally.
\<close>

theorem unknown_category_passthrough:
  assumes "distinct (map fst (value_map g))"
      and "fst ` set (value_map g) \<subseteq> set (columns (values_df g))"
      and "(key, val) \<in> set (value_map g)"
      and "s \<notin> set val"
      and "cell_at (values_df g) i key = Some (Str s)"
  shows "\<exists>g'. remapping_values g = Inr g' \<and> cell_at (values_df g') i key = Some (Str s)"
proof -
  from remap_loop_returns [OF assms(2)] obtain g' where
    g': "remap_loop (value_map g) g = Inr g'" by blast
  have "py_dict (zip val (arange (length val))) s = None"
    using assms(4) by (simp add: val_dict_None_iff)
  then have "cell_at (values_df g') i key = Some (Str s)"
    using remap_loop_key_column [OF g' assms(1,3), of i] assms(5) by simp
  with g' show ?thesis by (simp add: remapping_values_def)
qed

theorem unknown_category_passthrough_witness:
  "\<exists>g'. remapping_values sample_notebook = Inr g' \<and>
        cell_at (values_df g') 1 ''land_surface_condition'' = Some (Str ''z'')"
  using unknown_category_passthrough
          [of sample_notebook "''land_surface_condition''" "[''n'', ''o'', ''t'']" "''z''" 1]
  by (simp add: sample_notebook_def value_map_literal_def cell_at_def)

text \<open>
  C9.  The remapping step changes nothing but the cells of the configured columns:
  the vocabulary map and the labels are the same after it, the frame keeps its header
  and its number of records, and every cell under a column that is not a key of the
  vocabulary map is what it was.
\<close>

theorem encoder_frame:
  assumes "remapping_values g = Inr g'"
  shows "value_map g' = value_map g \<and> labels g' = labels g \<and>
         columns (values_df g') = columns (values_df g) \<and>
         length (rows (values_df g')) = length (rows (values_df g)) \<and>
         (\<forall>c i. c \<notin> fst ` set (value_map g) \<longrightarrow>
                cell_at (values_df g') i c = cell_at (values_df g) i c)"
proof -
  from assms have loop: "remap_loop (value_map g) g = Inr g'"
    by (simp add: remapping_values_def)
  from remap_loop_frame [OF loop] remap_loop_other_column [OF loop]
  show ?thesis by blast
qed

theorem encoder_frame_witness:
  "value_map (projr (remapping_values sample_notebook)) = value_map_literal \<and>
   cell_at (values_df (projr (remapping_values sample_notebook))) 0 ''age'' = Some (Num 30) \<and>
   cell_at (values_df (projr (remapping_values sample_notebook))) 1 ''age'' = Some (Num 10)"
  using encoder_frame [OF sample_notebook_remapped]
  by (simp add: sample_notebook_remapped) (simp add: sample_notebook_def value_map_literal_def cell_at_def)

text \<open>
  C10.  The remapping step is idempotent: run on the state it returned, it returns
  that state again.
\<close>

theorem remapping_idempotent:
  assumes "remapping_values g = Inr g'"
  shows "remapping_values g' = Inr g'"
proof -
  from assms have loop: "remap_loop (value_map g) g = Inr g'"
    by (simp add: remapping_values_def)
  have vm: "value_map g' = value_map g"
    using remap_loop_frame [OF loop] by simp
  have "remap_loop (value_map g) g' = Inr g'"
    by (rule remap_loop_fixpoint) (rule remap_loop_settles [OF loop])
  then show ?thesis by (simp add: remapping_values_def vm)
qed

theorem remapping_idempotent_witness:
  "remapping_values (projr (remapping_values sample_notebook)) =
     Inr (projr (remapping_values sample_notebook)) \<and>
   \<not> isl (remapping_values sample_notebook)"
  using remapping_idempotent [OF sample_notebook_remapped]
  by (simp add: sample_notebook_remapped)

subsection \<open>The loader\<close>

text \<open>
  C6.  When the data-preparation cell returns, neither the feature frame nor the label
  frame has a column \<open>building_id\<close> and no record has a cell under that name.  The
  header of each frame is the header of its source without \<open>building_id\<close>; every
  cell under another name is the cell of the source under that name (after the
  replacement by the column's vocabulary, for a configured column); and, the source
  being well-formed, every record has exactly one cell for each name of that
  header, so that no cell of the identifier is left in a record.  The four frames the
  split makes have no such column either, and their records are records of these two
  frames.
\<close>

theorem identifier_dropped:
  assumes "prepare_data (Table fv) (Table fl) = Inr g"
  shows "''building_id'' \<notin> set (columns (values_df g)) \<and>
         ''building_id'' \<notin> set (columns (labels g)) \<and>
         (\<forall>i. cell_at (values_df g) i ''building_id'' = None) \<and>
         (\<forall>i. cell_at (labels g) i ''building_id'' = None) \<and>
         columns (values_df g) = filter (\<lambda>c. c \<noteq> ''building_id'') (columns fv) \<and>
         columns (labels g) = filter (\<lambda>c. c \<noteq> ''building_id'') (columns fl) \<and>
         (\<forall>i c. i < length (rows (values_df g)) \<longrightarrow> c \<noteq> ''building_id'' \<longrightarrow>
                c \<notin> fst ` set value_map_literal \<longrightarrow>
                cell_at (values_df g) i c = cell_at fv i c) \<and>
         (\<forall>i c val. i < length (rows (values_df g)) \<longrightarrow> (c, val) \<in> set value_map_literal \<longrightarrow>
                cell_at (values_df g) i c =
                  map_option (replace_cell (py_dict (zip val (arange (length val)))))
                             (cell_at fv i c)) \<and>
         (\<forall>i c. i < length (rows (labels g)) \<longrightarrow> c \<noteq> ''building_id'' \<longrightarrow>
                cell_at (labels g) i c = cell_at fl i c) \<and>
         (wf_frame fv \<longrightarrow>
            wf_frame (values_df g) \<and>
            (\<forall>i j. i < length (rows (values_df g)) \<longrightarrow> j < length (columns (values_df g)) \<longrightarrow>
                   cell_at (values_df g) i (columns (values_df g) ! j) =
                     Some (rows (values_df g) ! i ! j))) \<and>
         (wf_frame fl \<longrightarrow>
            wf_frame (labels g) \<and>
            (\<forall>i j. i < length (rows (labels g)) \<longrightarrow> j < length (columns (labels g)) \<longrightarrow>
                   cell_at (labels g) i (columns (labels g) ! j) = Some (rows (labels g) ! i ! j))) \<and>
         (fst (split_cell gen g glob) = Inr (X_train, X_test, y_train, y_test) \<longrightarrow>
            ''building_id'' \<notin> set (columns X_train) \<and> ''building_id'' \<notin> set (columns X_test) \<and>
            ''building_id'' \<notin> set (columns y_train) \<and> ''building_id'' \<notin> set (columns y_test) \<and>
            (rng_ok gen \<longrightarrow>
               set (rows X_train) \<subseteq> set (rows (values_df g)) \<and>
               set (rows X_test) \<subseteq> set (rows (values_df g)) \<and>
               set (rows y_train) \<subseteq> set (rows (labels g)) \<and>
               set (rows y_test) \<subseteq> set (rows (labels g))))"
proof -
  let ?fv = "fv\<lparr>rows := take N (rows fv)\<rparr>"
  let ?fl = "fl\<lparr>rows := take N (rows fl)\<rparr>"
  from prepare_data_InrD [OF assms] obtain values1 labels1 where
    v: "frame_drop ''building_id'' ?fv = Inr values1" and
    l: "frame_drop ''building_id'' ?fl = Inr labels1" and
    r: "remap_loop value_map_literal
             \<lparr>value_map = value_map_literal, values_df = values1, labels = labels1\<rparr> = Inr g"
    by auto
  from remap_loop_frame [OF r] have
    fr: "columns (values_df g) = columns values1" "labels g = labels1"
        "length (rows (values_df g)) = length (rows values1)"
    by simp_all
  have c5: "columns (values_df g) = filter (\<lambda>c. c \<noteq> ''building_id'') (columns fv)"
    using frame_drop_frame(2) [OF v] fr(1) by simp
  have c6: "columns (labels g) = filter (\<lambda>c. c \<noteq> ''building_id'') (columns fl)"
    using frame_drop_frame(2) [OF l] fr(2) by simp
  have c1: "''building_id'' \<notin> set (columns (values_df g))" by (simp add: c5)
  have c2: "''building_id'' \<notin> set (columns (labels g))" by (simp add: c6)
  have c3: "\<forall>i. cell_at (values_df g) i ''building_id'' = None"
    using c1 by (simp add: cell_at_absent)
  have c4: "\<forall>i. cell_at (labels g) i ''building_id'' = None"
    using c2 by (simp add: cell_at_absent)
  have lenv: "length (rows values1) = length (take N (rows fv))"
    using frame_drop_frame(3) [OF v] by simp
  have lenl: "length (rows labels1) = length (take N (rows fl))"
    using frame_drop_frame(3) [OF l] by simp
  have src: "cell_at values1 i c = cell_at fv i c"
    if "i < length (rows (values_df g))" "c \<noteq> ''building_id''" for i c
    using that cell_at_frame_drop [OF v, of i c] cell_at_take [of i N fv c] fr(3) lenv
    by simp
  have c7: "\<forall>i c. i < length (rows (values_df g)) \<longrightarrow> c \<noteq> ''building_id'' \<longrightarrow>
                c \<notin> fst ` set value_map_literal \<longrightarrow>
                cell_at (values_df g) i c = cell_at fv i c"
    using remap_loop_other_column [OF r] src by simp
  have c8: "\<forall>i c val. i < length (rows (values_df g)) \<longrightarrow> (c, val) \<in> set value_map_literal \<longrightarrow>
                cell_at (values_df g) i c =
                  map_option (replace_cell (py_dict (zip val (arange (length val)))))
                             (cell_at fv i c)"
  proof (intro allI impI)
    fix i c val
    assume i: "i < length (rows (values_df g))" and cv: "(c, val) \<in> set value_map_literal"
    from cv literal_keys(2) have "c \<noteq> ''building_id''" by force
    from src [OF i this] remap_loop_key_column [OF r literal_keys(1) cv, of i]
    show "cell_at (values_df g) i c =
                  map_option (replace_cell (py_dict (zip val (arange (length val)))))
                             (cell_at fv i c)"
      by simp
  qed
  have c9: "\<forall>i c. i < length (rows (labels g)) \<longrightarrow> c \<noteq> ''building_id'' \<longrightarrow>
                cell_at (labels g) i c = cell_at fl i c"
    using cell_at_frame_drop [OF l] cell_at_take [of _ N fl] fr(2) lenl by simp
  have c10: "wf_frame fv \<longrightarrow>
            wf_frame (values_df g) \<and>
            (\<forall>i j. i < length (rows (values_df g)) \<longrightarrow> j < length (columns (values_df g)) \<longrightarrow>
                   cell_at (values_df g) i (columns (values_df g) ! j) =
                     Some (rows (values_df g) ! i ! j))"
  proof
    assume "wf_frame fv"
    from wf_frame_remap_loop [OF r] wf_frame_drop [OF v wf_frame_take [OF this]]
    have "wf_frame (values_df g)" by simp
    then show "wf_frame (values_df g) \<and>
            (\<forall>i j. i < length (rows (values_df g)) \<longrightarrow> j < length (columns (values_df g)) \<longrightarrow>
                   cell_at (values_df g) i (columns (values_df g) ! j) =
                     Some (rows (values_df g) ! i ! j))"
      by (simp add: wf_frame_cell)
  qed
  have c11: "wf_frame fl \<longrightarrow>
            wf_frame (labels g) \<and>
            (\<forall>i j. i < length (rows (labels g)) \<longrightarrow> j < length (columns (labels g)) \<longrightarrow>
                   cell_at (labels g) i (columns (labels g) ! j) = Some (rows (labels g) ! i ! j))"
  proof
    assume "wf_frame fl"
    from wf_frame_drop [OF l wf_frame_take [OF this]] fr(2)
    have "wf_frame (labels g)" by simp
    then show "wf_frame (labels g) \<and>
            (\<forall>i j. i < length (rows (labels g)) \<longrightarrow> j < length (columns (labels g)) \<longrightarrow>
                   cell_at (labels g) i (columns (labels g) ! j) = Some (rows (labels g) ! i ! j))"
      by (simp add: wf_frame_cell)
  qed
  have c12: "fst (split_cell gen g glob) = Inr (X_train, X_test, y_train, y_test) \<longrightarrow>
            ''building_id'' \<notin> set (columns X_train) \<and> ''building_id'' \<notin> set (columns X_test) \<and>
            ''building_id'' \<notin> set (columns y_train) \<and> ''building_id'' \<notin> set (columns y_test) \<and>
            (rng_ok gen \<longrightarrow>
               set (rows X_train) \<subseteq> set (rows (values_df g)) \<and>
               set (rows X_test) \<subseteq> set (rows (values_df g)) \<and>
               set (rows y_train) \<subseteq> set (rows (labels g)) \<and>
               set (rows y_test) \<subseteq> set (rows (labels g)))"
  proof
    assume s: "fst (split_cell gen g glob) = Inr (X_train, X_test, y_train, y_test)"
    let ?X = "values_df g" and ?y = "labels g"
    from s have s': "fst (train_test_split gen ?X ?y (binary64 (1 / 5)) (Some 0) glob) =
                       Inr (X_train, X_test, y_train, y_test)"
      by (simp add: split_cell_def)
    from train_test_split_columns [OF s'] c1 c2
    have cols: "''building_id'' \<notin> set (columns X_train) \<and> ''building_id'' \<notin> set (columns X_test) \<and>
            ''building_id'' \<notin> set (columns y_train) \<and> ''building_id'' \<notin> set (columns y_test)"
      by simp
    have sub: "set (rows X_train) \<subseteq> set (rows ?X) \<and> set (rows X_test) \<subseteq> set (rows ?X) \<and>
               set (rows y_train) \<subseteq> set (rows ?y) \<and> set (rows y_test) \<subseteq> set (rows ?y)"
      if ok: "rng_ok gen"
    proof -
      from train_test_split_result [OF s'] obtain train test st st' where
        it: "iter_indices gen (length (rows ?X))
              (length (rows ?X) - nat \<lceil>binary64 (binary64 (1 / 5) * binary64 (of_nat (length (rows ?X))))\<rceil>)
              (nat \<lceil>binary64 (binary64 (1 / 5) * binary64 (of_nat (length (rows ?X))))\<rceil>) st =
              ((train, test), st')"
        and len: "length (rows ?X) = length (rows ?y)"
        and res: "X_train = safe_indexing ?X train" "X_test = safe_indexing ?X test"
                 "y_train = safe_indexing ?y train" "y_test = safe_indexing ?y test"
        by blast
      from iter_indices_partition [OF ok it refl]
      have "set train \<subseteq> {0..<length (rows ?X)}" "set test \<subseteq> {0..<length (rows ?X)}"
        by blast+
      then show ?thesis
        unfolding res using len by (auto simp: safe_indexing_def)
    qed
    from cols sub show "''building_id'' \<notin> set (columns X_train) \<and> ''building_id'' \<notin> set (columns X_test) \<and>
            ''building_id'' \<notin> set (columns y_train) \<and> ''building_id'' \<notin> set (columns y_test) \<and>
            (rng_ok gen \<longrightarrow>
               set (rows X_train) \<subseteq> set (rows (values_df g)) \<and>
               set (rows X_test) \<subseteq> set (rows (values_df g)) \<and>
               set (rows y_train) \<subseteq> set (rows (labels g)) \<and>
               set (rows y_test) \<subseteq> set (rows (labels g)))"
      by blast
  qed
  show ?thesis
    by (intro conjI) (fact c1 c2 c3 c4 c5 c6 c7 c8 c9 c10 c11 c12)+
qed

theorem identifier_dropped_witness:
  "''building_id'' \<in> set (columns file_values_sample) \<and>
   ''building_id'' \<in> set (columns file_labels_sample) \<and>
   cell_at file_values_sample 0 ''building_id'' = Some (Num 802906) \<and>
   (\<exists>g X_train X_test y_train y_test.
      prepare_data (Table file_values_sample) (Table file_labels_sample) = Inr g \<and>
      ''building_id'' \<notin> set (columns (values_df g)) \<and>
      ''building_id'' \<notin> set (columns (labels g)) \<and>
      cell_at (values_df g) 0 ''building_id'' = None \<and>
      wf_frame (values_df g) \<and> wf_frame (labels g) \<and>
      rows (values_df g) =
        [[Num 30, Num 1, Num 2, Num 0, Num 0, Num 1, Num 2, Num 2, Num 2],
         [Num 10, Num 2, Num 0, Num 2, Num 4, Num 3, Num 3, Num 9, Num 0]] \<and>
      rows (labels g) = [[Num 3], [Num 2]] \<and>
      fst (split_cell rotating_rng g 0) = Inr (X_train, X_test, y_train, y_test) \<and>
      ''building_id'' \<notin> set (columns X_train) \<and> ''building_id'' \<notin> set (columns X_test) \<and>
      set (rows X_train) \<subseteq> set (rows (values_df g)) \<and>
      set (rows X_test) \<subseteq> set (rows (values_df g)))"
proof -
  define g where "g = projr (prepare_data (Table file_values_sample) (Table file_labels_sample))"
  have p: "prepare_data (Table file_values_sample) (Table file_labels_sample) = Inr g"
    by (simp add: g_def sample_prepared)
  have rs: "rows (values_df g) =
        [[Num 30, Num 1, Num 2, Num 0, Num 0, Num 1, Num 2, Num 2, Num 2],
         [Num 10, Num 2, Num 0, Num 2, Num 4, Num 3, Num 3, Num 9, Num 0]]"
       "rows (labels g) = [[Num 3], [Num 2]]"
    by (simp_all add: g_def sample_prepared)
  obtain X_train X_test y_train y_test where
    s: "fst (split_cell rotating_rng g 0) = Inr (X_train, X_test, y_train, y_test)"
    using sample_split unfolding g_def by blast
  have c: "''building_id'' \<in> set (columns file_values_sample)"
          "''building_id'' \<in> set (columns file_labels_sample)"
          "cell_at file_values_sample 0 ''building_id'' = Some (Num 802906)"
    by (simp_all add: file_values_sample_def file_labels_sample_def cell_at_def)
  note d = identifier_dropped [OF p, of rotating_rng 0 X_train X_test y_train y_test]
  from d have d1: "''building_id'' \<notin> set (columns (values_df g))"
    and d2: "''building_id'' \<notin> set (columns (labels g))"
    and d3: "cell_at (values_df g) 0 ''building_id'' = None"
    by blast+
  from d sample_files_wf have w: "wf_frame (values_df g)" "wf_frame (labels g)"
    by blast+
  from d s rotating_rng_ok have
    d4: "''building_id'' \<notin> set (columns X_train)" and
    d5: "''building_id'' \<notin> set (columns X_test)" and
    d6: "set (rows X_train) \<subseteq> set (rows (values_df g))" and
    d7: "set (rows X_test) \<subseteq> set (rows (values_df g))"
    by blast+
  have "\<exists>g X_train X_test y_train y_test.
      prepare_data (Table file_values_sample) (Table file_labels_sample) = Inr g \<and>
      ''building_id'' \<notin> set (columns (values_df g)) \<and>
      ''building_id'' \<notin> set (columns (labels g)) \<and>
      cell_at (values_df g) 0 ''building_id'' = None \<and>
      wf_frame (values_df g) \<and> wf_frame (labels g) \<and>
      rows (values_df g) =
        [[Num 30, Num 1, Num 2, Num 0, Num 0, Num 1, Num 2, Num 2, Num 2],
         [Num 10, Num 2, Num 0, Num 2, Num 4, Num 3, Num 3, Num 9, Num 0]] \<and>
      rows (labels g) = [[Num 3], [Num 2]] \<and>
      fst (split_cell rotating_rng g 0) = Inr (X_train, X_test, y_train, y_test) \<and>
      ''building_id'' \<notin> set (columns X_train) \<and> ''building_id'' \<notin> set (columns X_test) \<and>
      set (rows X_train) \<subseteq> set (rows (values_df g)) \<and>
      set (rows X_test) \<subseteq> set (rows (values_df g))"
    by (intro exI [of _ g] exI [of _ X_train] exI [of _ X_test] exI [of _ y_train]
          exI [of _ y_test] conjI)
       (fact p d1 d2 d3 w rs s d4 d5 d6 d7)+
  with c show ?thesis by (intro conjI)
qed

text \<open>
  C7 as stated asks the loader to fail on sources of different lengths.  The cell never
  compares them: on fifty feature records and forty-nine label records it returns a
  state with fifty and forty-nine records.
\<close>

theorem loader_row_count_counterexample:
  "length (rows features_50) = 50 \<and> length (rows labels_49) = 49 \<and>
   prepare_data (Table features_50) (Table labels_49) =
     Inr \<lparr>value_map = value_map_literal,
          values_df =
            \<lparr>columns = [''age'', ''land_surface_condition'', ''foundation_type'', ''roof_type'',
                        ''ground_floor_type'', ''other_floor_type'', ''position'',
                        ''plan_configuration'', ''legal_ownership_status''],
             rows = replicate 50 [Num 30, Num 2, Num 2, Num 0, Num 0, Num 1, Num 3, Num 2, Num 2]\<rparr>,
          labels = \<lparr>columns = [''damage_grade''], rows = replicate 49 [Num 3]\<rparr>\<rparr>"
  by (simp add: prepare_data_def features_50_def labels_49_def read_csv_def N_def frame_drop_def
        remapping_values_def value_map_literal_def replace_column_def arange_def py_dict_def Let_def)

text \<open>
  C7, amended.  Different numbers of records do not make the data-preparation cell
  fail: on two tables that have \<open>building_id\<close>, the feature table having every
  configured categorical column, it returns, each frame with the records of its source
  up to \<open>N\<close>, and frames of different lengths are rejected only by the split that
  follows, with \<open>ValueError\<close>.  The cell does fail when a configured categorical
  column is absent from the feature table; on two tables that have \<open>building_id\<close>
  the failure is the \<open>KeyError\<close> of an absent column.
\<close>

theorem loader_failures:
  "(''building_id'' \<in> set (columns fv) \<and> ''building_id'' \<in> set (columns fl) \<and>
    fst ` set value_map_literal \<subseteq> set (columns fv) \<longrightarrow>
      (\<exists>g. prepare_data (Table fv) (Table fl) = Inr g \<and>
           length (rows (values_df g)) = min N (length (rows fv)) \<and>
           length (rows (labels g)) = min N (length (rows fl)) \<and>
           (min N (length (rows fv)) \<noteq> min N (length (rows fl)) \<longrightarrow>
              split_cell gen g glob = (Inl (ValueError InconsistentSamples), glob)))) \<and>
   (\<not> fst ` set value_map_literal \<subseteq> set (columns fv) \<longrightarrow>
      isl (prepare_data (Table fv) file_labels)) \<and>
   (''building_id'' \<in> set (columns fv) \<and> ''building_id'' \<in> set (columns fl) \<and>
    \<not> fst ` set value_map_literal \<subseteq> set (columns fv) \<longrightarrow>
      (\<exists>k \<in> fst ` set value_map_literal.
         k \<notin> set (columns fv) \<and> prepare_data (Table fv) (Table fl) = Inl (KeyError k)))"
proof -
  have a: "\<exists>g. prepare_data (Table fv) (Table fl) = Inr g \<and>
           length (rows (values_df g)) = min N (length (rows fv)) \<and>
           length (rows (labels g)) = min N (length (rows fl)) \<and>
           (min N (length (rows fv)) \<noteq> min N (length (rows fl)) \<longrightarrow>
              split_cell gen g glob = (Inl (ValueError InconsistentSamples), glob))"
    if "''building_id'' \<in> set (columns fv)" "''building_id'' \<in> set (columns fl)"
       "fst ` set value_map_literal \<subseteq> set (columns fv)"
  proof -
    from prepare_data_returns [OF that] obtain g where
      g: "prepare_data (Table fv) (Table fl) = Inr g" by blast
    from prepare_data_row_counts [OF g] have
      n: "length (rows (values_df g)) = min N (length (rows fv))"
         "length (rows (labels g)) = min N (length (rows fl))"
      by simp_all
    then have "split_cell gen g glob = (Inl (ValueError InconsistentSamples), glob)"
      if "min N (length (rows fv)) \<noteq> min N (length (rows fl))"
      using that by (simp add: split_cell_def train_test_split_def)
    with g n show ?thesis by blast
  qed
  from a prepare_data_missing_column [of fv file_labels] prepare_data_key_error [of fv fl]
  show ?thesis by blast
qed

theorem loader_failures_witness:
  "(\<exists>g. prepare_data (Table features_50) (Table labels_49) = Inr g \<and>
        length (rows (values_df g)) = 50 \<and> length (rows (labels g)) = 49 \<and>
        split_cell rotating_rng g 0 = (Inl (ValueError InconsistentSamples), 0)) \<and>
   ''roof_type'' \<notin> set (columns no_roof_type) \<and>
   isl (prepare_data (Table no_roof_type) (Table labels_49)) \<and>
   (\<exists>k. k \<notin> set (columns no_roof_type) \<and>
        prepare_data (Table no_roof_type) (Table labels_49) = Inl (KeyError k))"
proof -
  have k: "fst ` set value_map_literal \<subseteq> set (columns features_50)"
          "''building_id'' \<in> set (columns features_50)"
          "''building_id'' \<in> set (columns labels_49)"
          "''building_id'' \<in> set (columns no_roof_type)"
          "''roof_type'' \<notin> set (columns no_roof_type)"
          "\<not> fst ` set value_map_literal \<subseteq> set (columns no_roof_type)"
    by (simp_all add: features_50_def labels_49_def no_roof_type_def value_map_literal_def)
  have n: "min N (length (rows features_50)) = 50" "min N (length (rows labels_49)) = 49"
    by (simp_all add: features_50_def labels_49_def N_def)
  from loader_failures [of features_50 labels_49 rotating_rng 0] k n
  have a: "\<exists>g. prepare_data (Table features_50) (Table labels_49) = Inr g \<and>
        length (rows (values_df g)) = 50 \<and> length (rows (labels g)) = 49 \<and>
        split_cell rotating_rng g 0 = (Inl (ValueError InconsistentSamples), 0)"
    by auto
  from loader_failures [of no_roof_type labels_49 rotating_rng 0 "Table labels_49"] k
  have b: "isl (prepare_data (Table no_roof_type) (Table labels_49))"
          "\<exists>k. k \<notin> set (columns no_roof_type) \<and>
             prepare_data (Table no_roof_type) (Table labels_49) = Inl (KeyError k)"
    by blast+
  from a b k(5) show ?thesis by blast
qed

subsection \<open>The split\<close>

text \<open>
  C3 as stated gives the test subset \<open>round(f * n)\<close> records.  scikit-learn takes the
  ceiling of the product: two records and \<open>f = 0.2\<close> give one test record and one
  train record, where rounding \<open>0.4\<close> gives 0.  (The sizes do not depend on the
  generator.)
\<close>

theorem split_round_counterexample:
  "length (rows two_rows) = 2 \<and>
   round (binary64 (1 / 5) * 2) = 0 \<and> round ((1 / 5 :: rat) * 2) = 0 \<and>
   \<lceil>binary64 (binary64 (1 / 5) * binary64 (of_nat 2))\<rceil> = 1 \<and>
   train_test_split rotating_rng two_rows two_labels (binary64 (1 / 5)) (Some 0) 0 =
     (Inr (\<lparr>columns = [''age''], rows = [[Num 10]]\<rparr>,
           \<lparr>columns = [''age''], rows = [[Num 30]]\<rparr>,
           \<lparr>columns = [''damage_grade''], rows = [[Num 2]]\<rparr>,
           \<lparr>columns = [''damage_grade''], rows = [[Num 3]]\<rparr>), 0)"
  by code_simp

text \<open>
  C3, amended.  For aligned frames of \<open>n\<close> records, a fraction \<open>0 < f < 1\<close> and no
  seed or a seed from \<open>0\<close> to \<open>2^32 - 1\<close>, let \<open>t\<close> be the ceiling of the product
  \<open>f * n\<close> as the doubles give it.  If \<open>0 < t < n\<close>, the split returns a test subset
  of exactly \<open>t\<close> records and a train subset of exactly \<open>n - t\<close> records, made from
  two index lists without repetition that have no index in common and together are
  the whole range \<open>0, ..., n - 1\<close>.  If \<open>t = n\<close>, the split fails because the train
  set would be empty.  For \<open>0 < n < 2^53\<close> there is no third case: \<open>0 < t \<le> n\<close>.
\<close>

theorem split_ceiling_sizes:
  assumes "rng_ok gen"
      and "length (rows X) = length (rows y)"
      and "0 < f" "f < 1"
      and "case rs of None \<Rightarrow> True | Some s \<Rightarrow> 0 \<le> s \<and> s < 2 ^ 32"
  shows "(0 < \<lceil>binary64 (f * binary64 (of_nat (length (rows X))))\<rceil> \<and>
          \<lceil>binary64 (f * binary64 (of_nat (length (rows X))))\<rceil> < int (length (rows X)) \<longrightarrow>
          (\<exists>train test glob'.
             train_test_split gen X y f rs glob =
               (Inr (safe_indexing X train, safe_indexing X test,
                     safe_indexing y train, safe_indexing y test), glob') \<and>
             length (rows (safe_indexing X test)) =
               nat \<lceil>binary64 (f * binary64 (of_nat (length (rows X))))\<rceil> \<and>
             length (rows (safe_indexing X train)) =
               length (rows X) - nat \<lceil>binary64 (f * binary64 (of_nat (length (rows X))))\<rceil> \<and>
             length test = nat \<lceil>binary64 (f * binary64 (of_nat (length (rows X))))\<rceil> \<and>
             length train =
               length (rows X) - nat \<lceil>binary64 (f * binary64 (of_nat (length (rows X))))\<rceil> \<and>
             distinct train \<and> distinct test \<and>
             set train \<inter> set test = {} \<and>
             set train \<union> set test = {0..<length (rows X)})) \<and>
         (\<lceil>binary64 (f * binary64 (of_nat (length (rows X))))\<rceil> = int (length (rows X)) \<longrightarrow>
          train_test_split gen X y f rs glob = (Inl (ValueError EmptyTrainSet), glob)) \<and>
         (0 < length (rows X) \<and> length (rows X) < 2 ^ 53 \<longrightarrow>
          0 < \<lceil>binary64 (f * binary64 (of_nat (length (rows X))))\<rceil> \<and>
          \<lceil>binary64 (f * binary64 (of_nat (length (rows X))))\<rceil> \<le> int (length (rows X)))"
proof -
  let ?n = "length (rows X)"
  let ?t = "\<lceil>binary64 (f * binary64 (of_nat ?n))\<rceil>"
  from assms(5) obtain st where st: "check_random_state gen rs glob = Inr st"
    by (auto simp: check_random_state_def split: option.splits)
  have a: "\<exists>train test glob'.
             train_test_split gen X y f rs glob =
               (Inr (safe_indexing X train, safe_indexing X test,
                     safe_indexing y train, safe_indexing y test), glob') \<and>
             length (rows (safe_indexing X test)) = nat ?t \<and>
             length (rows (safe_indexing X train)) = ?n - nat ?t \<and>
             length test = nat ?t \<and> length train = ?n - nat ?t \<and>
             distinct train \<and> distinct test \<and>
             set train \<inter> set test = {} \<and>
             set train \<union> set test = {0..<?n}"
    if t: "0 < ?t" "?t < int ?n"
  proof -
    from train_test_split_returns [OF assms(2-4) t st]
    obtain train test st' where
      it: "iter_indices gen ?n (?n - nat ?t) (nat ?t) st = ((train, test), st')"
      and tts: "train_test_split gen X y f rs glob =
             (Inr (safe_indexing X train, safe_indexing X test,
                   safe_indexing y train, safe_indexing y test),
              case rs of None \<Rightarrow> st' | Some seed \<Rightarrow> glob)"
      by blast
    from t have "min (nat ?t) ?n = nat ?t" by linarith
    with iter_indices_partition [OF assms(1) it refl]
    have "length test = nat ?t \<and> length train = ?n - nat ?t \<and> distinct train \<and> distinct test \<and>
          set train \<inter> set test = {} \<and> set train \<union> set test = {0..<?n}"
      by simp
    with tts show ?thesis by (auto simp: safe_indexing_def)
  qed
  have b: "train_test_split gen X y f rs glob = (Inl (ValueError EmptyTrainSet), glob)"
    if "?t = int ?n"
    using train_test_split_empty_train [OF assms(2-4) that] .
  have c: "0 < ?t \<and> ?t \<le> int ?n" if "0 < ?n" "?n < 2 ^ 53"
    using double_product_bounds [OF assms(3,4) that] .
  from a b c show ?thesis by blast
qed

text \<open>
  The scenario of C3: a hundred records and \<open>f = 0.2\<close> give 20 and 80.  With
  \<open>f = 0.55\<close> they give 56 and 44, the double product being just above 55.
\<close>

theorem split_ceiling_sizes_witness:
  "(\<exists>train test glob'.
      train_test_split rotating_rng hundred_rows hundred_labels (binary64 (1 / 5)) (Some 0) 0 =
        (Inr (safe_indexing hundred_rows train, safe_indexing hundred_rows test,
              safe_indexing hundred_labels train, safe_indexing hundred_labels test), glob') \<and>
      length (rows (safe_indexing hundred_rows test)) = 20 \<and>
      length (rows (safe_indexing hundred_rows train)) = 80 \<and>
      set train \<inter> set test = {} \<and> set train \<union> set test = {0..<100}) \<and>
   (\<exists>train test glob'.
      train_test_split rotating_rng hundred_rows hundred_labels (binary64 (11 / 20)) (Some 0) 0 =
        (Inr (safe_indexing hundred_rows train, safe_indexing hundred_rows test,
              safe_indexing hundred_labels train, safe_indexing hundred_labels test), glob') \<and>
      length (rows (safe_indexing hundred_rows test)) = 56 \<and>
      length (rows (safe_indexing hundred_rows train)) = 44)"
proof -
  have n: "length (rows hundred_rows) = 100" "length (rows hundred_labels) = 100"
    by (simp_all add: hundred_rows_def hundred_labels_def)
  have s: "case Some (0::int) of None \<Rightarrow> True | Some s \<Rightarrow> 0 \<le> s \<and> s < 2 ^ 32" by simp
  note p = double_products
  from split_ceiling_sizes [OF rotating_rng_ok _ p(5,6) s, of hundred_rows hundred_labels 0]
  have a: "\<exists>train test glob'.
      train_test_split rotating_rng hundred_rows hundred_labels (binary64 (1 / 5)) (Some 0) 0 =
        (Inr (safe_indexing hundred_rows train, safe_indexing hundred_rows test,
              safe_indexing hundred_labels train, safe_indexing hundred_labels test), glob') \<and>
      length (rows (safe_indexing hundred_rows test)) = 20 \<and>
      length (rows (safe_indexing hundred_rows train)) = 80 \<and>
      set train \<inter> set test = {} \<and> set train \<union> set test = {0..<100}"
    unfolding n p(1) by auto
  from split_ceiling_sizes [OF rotating_rng_ok _ p(7,8) s, of hundred_rows hundred_labels 0]
  have b: "\<exists>train test glob'.
      train_test_split rotating_rng hundred_rows hundred_labels (binary64 (11 / 20)) (Some 0) 0 =
        (Inr (safe_indexing hundred_rows train, safe_indexing hundred_rows test,
              safe_indexing hundred_labels train, safe_indexing hundred_labels test), glob') \<and>
      length (rows (safe_indexing hundred_rows test)) = 56 \<and>
      length (rows (safe_indexing hundred_rows train)) = 44"
    unfolding n p(4) by auto
  from a b show ?thesis by (rule conjI)
qed

text \<open>
  C4.  With an integer seed the split is a function of its arguments alone: the state
  of numpy's global generator has no influence on the result, and the call leaves that
  state as it found it, so two calls with the same frames, fraction and seed return
  the same four frames.
\<close>

theorem split_seed_deterministic:
  "fst (train_test_split gen X y f (Some s) glob1) = fst (train_test_split gen X y f (Some s) glob2) \<and>
   snd (train_test_split gen X y f (Some s) glob1) = glob1"
  by (auto simp: train_test_split_def check_random_state_def Let_def split: sum.splits prod.splits)

theorem split_seed_deterministic_witness:
  "fst (train_test_split rotating_rng two_rows two_labels (1 / 5) (Some 0) 0) =
   fst (train_test_split rotating_rng two_rows two_labels (1 / 5) (Some 0) 5) \<and>
   snd (train_test_split rotating_rng two_rows two_labels (1 / 5) (Some 0) 5) = 5"
  using split_seed_deterministic [of rotating_rng two_rows two_labels "1 / 5" 0 5 0]
  by simp

text \<open>Without a seed this is not so: the result follows the global generator.\<close>

lemma split_unseeded_uses_global:
  "fst (train_test_split rotating_rng two_rows two_labels (1 / 5) None 0) \<noteq>
   fst (train_test_split rotating_rng two_rows two_labels (1 / 5) None 1)"
  by code_simp

text \<open>
  C5.  When the split returns, the train features and the train labels are the records
  of the two input frames at one and the same list of positions, and so are the test
  features and the test labels: each feature record keeps the label it was paired
  with, and within each subset there are as many feature records as label records.
\<close>

theorem split_pairing:
  assumes "rng_ok gen"
      and "fst (train_test_split gen X y f rs glob) = Inr (X_train, X_test, y_train, y_test)"
  shows "\<exists>train test.
           set train \<subseteq> {0..<length (rows X)} \<and> set test \<subseteq> {0..<length (rows X)} \<and>
           length (rows X) = length (rows y) \<and>
           rows X_train = map (\<lambda>i. rows X ! i) train \<and> rows y_train = map (\<lambda>i. rows y ! i) train \<and>
           rows X_test = map (\<lambda>i. rows X ! i) test \<and> rows y_test = map (\<lambda>i. rows y ! i) test \<and>
           length (rows X_train) = length (rows y_train) \<and>
           length (rows X_test) = length (rows y_test) \<and>
           columns X_train = columns X \<and> columns X_test = columns X \<and>
           columns y_train = columns y \<and> columns y_test = columns y"
proof -
  from train_test_split_result [OF assms(2)] obtain train test st st' where
    it: "iter_indices gen (length (rows X))
              (length (rows X) - nat \<lceil>binary64 (f * binary64 (of_nat (length (rows X))))\<rceil>)
              (nat \<lceil>binary64 (f * binary64 (of_nat (length (rows X))))\<rceil>) st = ((train, test), st')"
    and len: "length (rows X) = length (rows y)"
    and res: "X_train = safe_indexing X train" "X_test = safe_indexing X test"
             "y_train = safe_indexing y train" "y_test = safe_indexing y test"
    by blast
  from iter_indices_partition [OF assms(1) it refl]
  have sub: "set train \<subseteq> {0..<length (rows X)}" "set test \<subseteq> {0..<length (rows X)}"
    by blast+
  with res len show ?thesis
    by (intro exI [of _ train] exI [of _ test]) (simp add: safe_indexing_def)
qed

theorem split_pairing_witness:
  "\<exists>train test.
     set train \<subseteq> {0..<2} \<and> set test \<subseteq> {0..<2} \<and>
     [[Num 30]] = map (\<lambda>i. rows two_rows ! i) train \<and> [[Num 3]] = map (\<lambda>i. rows two_labels ! i) train \<and>
     [[Num 10]] = map (\<lambda>i. rows two_rows ! i) test \<and> [[Num 2]] = map (\<lambda>i. rows two_labels ! i) test"
  using split_pairing [OF rotating_rng_ok two_rows_split]
  by (simp add: two_rows_def two_labels_def numeral_2_eq_2)

text \<open>
  C8.  On aligned frames, a fraction that is not strictly between 0 and 1 makes the
  split fail with the \<open>ValueError\<close> for the test size, and frames without records make
  it fail: with the \<open>ValueError\<close> for an empty train set when the fraction is valid
  (the test size is checked first).
\<close>

theorem split_rejects:
  assumes "length (rows X) = length (rows y)"
  shows "(\<not> (0 < f \<and> f < 1) \<longrightarrow>
            train_test_split gen X y f rs glob = (Inl (ValueError TestSizeOutOfRange), glob)) \<and>
         (rows X = [] \<longrightarrow> isl (fst (train_test_split gen X y f rs glob))) \<and>
         (rows X = [] \<and> 0 < f \<and> f < 1 \<longrightarrow>
            train_test_split gen X y f rs glob = (Inl (ValueError EmptyTrainSet), glob))"
proof -
  have a: "train_test_split gen X y f rs glob = (Inl (ValueError TestSizeOutOfRange), glob)"
    if "\<not> (0 < f \<and> f < 1)"
    using that assms by (simp add: train_test_split_def validate_shuffle_split_range)
  have b: "train_test_split gen X y f rs glob = (Inl (ValueError EmptyTrainSet), glob)"
    if "rows X = []" "0 < f" "f < 1"
    using train_test_split_empty_train [OF assms that(2,3)] that(1)
    by (simp add: binary64_def)
  from a b show ?thesis by (cases "0 < f \<and> f < 1") auto
qed

theorem split_rejects_witness:
  "train_test_split rotating_rng hundred_rows hundred_labels (3 / 2) (Some 0) 0 =
     (Inl (ValueError TestSizeOutOfRange), 0) \<and>
   train_test_split rotating_rng no_rows no_rows (1 / 5) (Some 0) 0 =
     (Inl (ValueError EmptyTrainSet), 0)"
  using split_rejects [of hundred_rows hundred_labels "3 / 2" rotating_rng "Some 0" 0]
        split_rejects [of no_rows no_rows "1 / 5" rotating_rng "Some 0" 0]
  by (simp add: hundred_rows_def hundred_labels_def no_rows_def)

end
